theory Spec2Isabelle
  imports Complex_Main
begin

section \<open>Data model\<close>

text \<open>
  The retrieval service of \<^verbatim>\<open>qa-bot-ts\<close>. JavaScript numbers are modelled as
  \<^typ>\<open>real\<close> (scores) or \<^typ>\<open>nat\<close> (counts and limits), strings as
  \<^typ>\<open>string\<close>, optional object properties as \<^typ>\<open>'a option\<close>.
\<close>

datatype match_type = Keyword | Vector | Hybrid | LlmReranked

text \<open>\<^verbatim>\<open>extractedInfo\<close> of \<^verbatim>\<open>ResumeMatchSchema\<close> (llmReranker.ts), after the
  schema's transform of \<^verbatim>\<open>skills\<close> and \<^verbatim>\<open>keyHighlights\<close> to lists.\<close>

record extracted_info =
  currentCompany :: "string option"
  location :: "string option"
  skills :: "string list option"
  experience :: "string option"
  keyHighlights :: "string list option"

text \<open>
  The object that server.ts builds as \<^verbatim>\<open>structuredResults\<close> (and caches in the
  conversation memory) has the fields of \<open>structured_result\<close>. A
  \<^verbatim>\<open>SearchResultItem\<close> (types/search.ts) has these and \<^verbatim>\<open>content\<close>; the re-ranker
  adds \<^verbatim>\<open>llmReasoning\<close> and \<^verbatim>\<open>extractedInfo\<close>, the pipeline adds \<^verbatim>\<open>llmAnalysis\<close>;
  a property that is not set is \<open>None\<close>.
\<close>

record structured_result =
  name :: string
  email :: string
  phoneNumber :: string
  score :: real
  matchType :: match_type
  extractedInfo :: "extracted_info option"
  llmReasoning :: "string option"

record SearchResultItem = structured_result +
  content :: string
  llmAnalysis :: "(string \<times> extracted_info option) option"

section \<open>Conversation memory (lib/memory/chatMemory.ts)\<close>

text \<open>\<^verbatim>\<open>HumanMessage\<close> and \<^verbatim>\<open>AIMessage\<close> of the chat history.\<close>

datatype BaseMessage = HumanMessage string | AIMessage string

text \<open>
  \<^verbatim>\<open>ChatMemoryManager\<close>: the message list of its \<^verbatim>\<open>BufferMemory\<close>, the bound
  \<^verbatim>\<open>maxMessages\<close> and the cache \<^verbatim>\<open>lastSearchResults\<close>.
\<close>

record ChatMemoryManager =
  conversationId :: string
  maxMessages :: nat
  chat_history :: "BaseMessage list"
  lastSearchResults :: "structured_result list"

text \<open>The constructor: \<^verbatim>\<open>maxMessages = config?.maxMessages ?? 10\<close>, empty history and cache.\<close>

definition new_ChatMemoryManager :: "string \<Rightarrow> nat option \<Rightarrow> ChatMemoryManager" where
  "new_ChatMemoryManager cid cfg =
     \<lparr>conversationId = cid,
      maxMessages = (case cfg of None \<Rightarrow> 10 | Some n \<Rightarrow> n),
      chat_history = [],
      lastSearchResults = []\<rparr>"

text \<open>\<^verbatim>\<open>BufferMemory.saveContext\<close>: append the user's message, then the model's.\<close>

definition saveContext :: "string \<Rightarrow> string \<Rightarrow> ChatMemoryManager \<Rightarrow> ChatMemoryManager" where
  "saveContext userInput aiOutput m =
     m\<lparr>chat_history := chat_history m @ [HumanMessage userInput, AIMessage aiOutput]\<rparr>"

definition getMessages :: "ChatMemoryManager \<Rightarrow> BaseMessage list" where
  "getMessages m = chat_history m"

definition getMessageCount :: "ChatMemoryManager \<Rightarrow> nat" where
  "getMessageCount m = length (getMessages m)"

text \<open>
  \<^verbatim>\<open>trimMessages\<close>: when there are more than \<^verbatim>\<open>maxMessages\<close> messages, the history
  is cleared and \<^verbatim>\<open>messages.slice(toRemove)\<close> is added back.
\<close>

definition trimMessages :: "ChatMemoryManager \<Rightarrow> ChatMemoryManager" where
  "trimMessages m =
     (let messages = getMessages m in
      if length messages > maxMessages m
      then (let toRemove = length messages - maxMessages m
            in m\<lparr>chat_history := drop toRemove messages\<rparr>)
      else m)"

definition addExchange :: "string \<Rightarrow> string \<Rightarrow> ChatMemoryManager \<Rightarrow> ChatMemoryManager" where
  "addExchange userInput aiOutput m = trimMessages (saveContext userInput aiOutput m)"

text \<open>\<^verbatim>\<open>clear\<close> calls \<^verbatim>\<open>this.memory.clear()\<close> and nothing else.\<close>

definition clear :: "ChatMemoryManager \<Rightarrow> ChatMemoryManager" where
  "clear m = m\<lparr>chat_history := []\<rparr>"

definition setLastSearchResults ::
  "structured_result list \<Rightarrow> ChatMemoryManager \<Rightarrow> ChatMemoryManager" where
  "setLastSearchResults results m = m\<lparr>lastSearchResults := results\<rparr>"

definition getLastSearchResults :: "ChatMemoryManager \<Rightarrow> structured_result list" where
  "getLastSearchResults m = lastSearchResults m"

definition hasSearchResults :: "ChatMemoryManager \<Rightarrow> bool" where
  "hasSearchResults m \<longleftrightarrow> length (lastSearchResults m) > 0"

definition clearSearchResults :: "ChatMemoryManager \<Rightarrow> ChatMemoryManager" where
  "clearSearchResults m = m\<lparr>lastSearchResults := []\<rparr>"

text \<open>A run of \<^verbatim>\<open>addExchange\<close> calls, in order, and the messages they append.\<close>

fun addExchanges :: "(string \<times> string) list \<Rightarrow> ChatMemoryManager \<Rightarrow> ChatMemoryManager" where
  "addExchanges [] m = m"
| "addExchanges ((u, a) # xs) m = addExchanges xs (addExchange u a m)"

fun exchange_messages :: "(string \<times> string) list \<Rightarrow> BaseMessage list" where
  "exchange_messages [] = []"
| "exchange_messages ((u, a) # xs) = HumanMessage u # AIMessage a # exchange_messages xs"

text \<open>The last \<open>n\<close> elements of a list.\<close>

definition last_n :: "nat \<Rightarrow> 'a list \<Rightarrow> 'a list" where
  "last_n n xs = drop (length xs - n) xs"

section \<open>Strings and regular expressions of the host language\<close>

text \<open>
  A thrown JavaScript \<^verbatim>\<open>Error\<close> with its message. A function of the source that can
  throw returns \<open>js_error + 'a\<close>.
\<close>

datatype js_error = Error string

fun message_of :: "js_error \<Rightarrow> string" where
  "message_of (Error m) = m"

text \<open>\<^verbatim>\<open>x || d\<close> on an optional string: \<^verbatim>\<open>undefined\<close> and \<^verbatim>\<open>""\<close> are both falsy.\<close>

definition js_or :: "string option \<Rightarrow> string \<Rightarrow> string" where
  "js_or x d = (case x of None \<Rightarrow> d | Some s \<Rightarrow> if s = [] then d else s)"

text \<open>
  \<^verbatim>\<open>toLowerCase\<close>, \<^verbatim>\<open>trim\<close>, \<^verbatim>\<open>indexOf\<close>, \<^verbatim>\<open>includes\<close>, \<^verbatim>\<open>substring\<close> and
  \<^verbatim>\<open>split(/\s+/)\<close> on ASCII strings.
\<close>

definition to_lower :: "char \<Rightarrow> char" where
  "to_lower c = (let n = (of_char c :: nat) in if 65 \<le> n \<and> n \<le> 90 then char_of (n + 32) else c)"

definition toLowerCase :: "string \<Rightarrow> string" where
  "toLowerCase s = map to_lower s"

definition whitespace :: "char \<Rightarrow> bool" where
  "whitespace c \<longleftrightarrow> (of_char c :: nat) \<in> {9, 10, 11, 12, 13, 32}"

definition trim :: "string \<Rightarrow> string" where
  "trim s = rev (dropWhile whitespace (rev (dropWhile whitespace s)))"

definition starts_with :: "string \<Rightarrow> string \<Rightarrow> bool" where
  "starts_with s k \<longleftrightarrow> take (length k) s = k"

text \<open>\<^verbatim>\<open>s.indexOf(k)\<close> searching from position \<open>i\<close>; \<open>None\<close> is \<^verbatim>\<open>-1\<close>.\<close>

primrec index_from :: "nat \<Rightarrow> string \<Rightarrow> string \<Rightarrow> nat option" where
  "index_from i [] k = (if k = [] then Some i else None)"
| "index_from i (c # cs) k =
     (if starts_with (c # cs) k then Some i else index_from (Suc i) cs k)"

definition indexOf :: "string \<Rightarrow> string \<Rightarrow> nat option" where
  "indexOf s k = index_from 0 s k"

definition js_includes :: "string \<Rightarrow> string \<Rightarrow> bool" where
  "js_includes s k \<longleftrightarrow> indexOf s k \<noteq> None"

text \<open>\<^verbatim>\<open>s.substring(a, b)\<close> for \<open>a \<le> b\<close>.\<close>

definition substring :: "string \<Rightarrow> nat \<Rightarrow> nat \<Rightarrow> string" where
  "substring s a b = take (b - a) (drop a s)"

text \<open>
  \<^verbatim>\<open>s.split(/\s+/)\<close>: the pieces between maximal runs of whitespace. The auxiliary
  function reads the string from its end and returns the pieces of the suffix with
  the fact that the suffix starts with whitespace.
\<close>

primrec split_ws_aux :: "string \<Rightarrow> string list \<times> bool" where
  "split_ws_aux [] = ([[]], False)"
| "split_ws_aux (c # cs) =
     (let (toks, ws_next) = split_ws_aux cs in
      if whitespace c then ((if ws_next then toks else [] # toks), True)
      else (case toks of [] \<Rightarrow> ([[c]], False) | t # ts \<Rightarrow> ((c # t) # ts, False)))"

definition split_ws :: "string \<Rightarrow> string list" where
  "split_ws s = fst (split_ws_aux s)"

text \<open>\<^verbatim>\<open>xs.join(sep)\<close>.\<close>

fun join :: "string \<Rightarrow> string list \<Rightarrow> string" where
  "join sep [] = []"
| "join sep [x] = x"
| "join sep (x # y # ys) = x @ sep @ join sep (y # ys)"

text \<open>
  A compiled case-insensitive regular expression without the global flag, as the
  keyword engine uses it: \<open>test re s\<close> says whether the expression matches somewhere
  in \<open>s\<close>, and \<open>ncaptures re\<close> is the number of capturing groups of the pattern. For
  such an expression \<^verbatim>\<open>s.match(re)\<close> is \<^verbatim>\<open>null\<close> when there is no match, and
  otherwise an array of the matched text followed by one entry for each capturing
  group, so \<^verbatim>\<open>(s.match(re) || []).length\<close> is \<open>match_length re s\<close>.
\<close>

record RegExp =
  ncaptures :: nat
  test :: "string \<Rightarrow> bool"

definition match_length :: "RegExp \<Rightarrow> string \<Rightarrow> nat" where
  "match_length re s = (if test re s then Suc (ncaptures re) else 0)"

text \<open>
  \<^verbatim>\<open>new RegExp(source, "i")\<close>: the engine of the host, a parameter of the model. It
  throws on a source that is not a regular expression.
\<close>

type_synonym regex_engine = "string \<Rightarrow> js_error + RegExp"

subsection \<open>A concrete engine for literal characters, alternation and groups\<close>

text \<open>
  For evaluating the engines on concrete queries: the patterns made of literal
  characters, \<^verbatim>\<open>|\<close> and capturing groups \<^verbatim>\<open>( )\<close>. A pattern with another special
  character is outside this fragment and \<open>js_regex\<close> does not compile it.
\<close>

datatype rx = Empty | Lit char | Seq rx rx | Alt rx rx | Grp rx

text \<open>A frame of the parser: the alternatives read so far, and the sequence being read.\<close>

type_synonym rx_frame = "rx option \<times> rx"

fun close_frame :: "rx_frame \<Rightarrow> rx" where
  "close_frame (None, cur) = cur"
| "close_frame (Some a, cur) = Alt a cur"

text \<open>The other special characters, by code: backslash, \<^verbatim>\<open>^ $ . * + ? [ ] { }\<close>.\<close>

definition special :: "char \<Rightarrow> bool" where
  "special c \<longleftrightarrow> (of_char c :: nat) \<in> {92, 94, 36, 46, 42, 43, 63, 91, 93, 123, 125}"

fun rx_parse :: "rx_frame list \<Rightarrow> string \<Rightarrow> rx option" where
  "rx_parse [f] [] = Some (close_frame f)"
| "rx_parse _ [] = None"
| "rx_parse [] (c # cs) = None"
| "rx_parse (f # st) (c # cs) =
     (if c = CHR ''|'' then rx_parse ((Some (close_frame f), Empty) # st) cs
      else if c = CHR ''('' then rx_parse ((None, Empty) # f # st) cs
      else if c = CHR '')'' then
        (case st of
           [] \<Rightarrow> None
         | (alts, cur) # st' \<Rightarrow> rx_parse ((alts, Seq cur (Grp (close_frame f))) # st') cs)
      else if special c then None
      else rx_parse ((fst f, Seq (snd f) (Lit c)) # st) cs)"

text \<open>The strings that remain after the expression has matched a prefix of \<open>s\<close>.\<close>

fun rx_match :: "rx \<Rightarrow> string \<Rightarrow> string list" where
  "rx_match Empty s = [s]"
| "rx_match (Lit c) [] = []"
| "rx_match (Lit c) (d # ds) = (if to_lower c = to_lower d then [ds] else [])"
| "rx_match (Seq a b) s = concat (map (rx_match b) (rx_match a s))"
| "rx_match (Alt a b) s = rx_match a s @ rx_match b s"
| "rx_match (Grp a) s = rx_match a s"

primrec rx_search :: "rx \<Rightarrow> string \<Rightarrow> bool" where
  "rx_search r [] = (rx_match r [] \<noteq> [])"
| "rx_search r (c # cs) = (rx_match r (c # cs) \<noteq> [] \<or> rx_search r cs)"

fun rx_groups :: "rx \<Rightarrow> nat" where
  "rx_groups Empty = 0"
| "rx_groups (Lit c) = 0"
| "rx_groups (Seq a b) = rx_groups a + rx_groups b"
| "rx_groups (Alt a b) = rx_groups a + rx_groups b"
| "rx_groups (Grp a) = Suc (rx_groups a)"

definition js_regex :: regex_engine where
  "js_regex source =
     (case rx_parse [(None, Empty)] source of
        None \<Rightarrow> Inl (Error (''Invalid regular expression: /'' @ source @ ''/''))
      | Some r \<Rightarrow> Inr \<lparr>ncaptures = rx_groups r, test = rx_search r\<rparr>)"

section \<open>Keyword engine (pipelines/retrieval/keywordSearch.ts)\<close>

text \<open>
  A document of the collection, with the fields the engine reads; a field that the
  document does not have is \<open>None\<close>.
\<close>

record resume_doc =
  doc_text :: "string option"
  doc_name :: "string option"
  doc_email :: "string option"
  doc_skills :: "string option"
  doc_role :: "string option"
  doc_phone :: "string option"

text \<open>The first keyword, in order, that occurs in the content, at its first position.\<close>

fun first_position :: "string \<Rightarrow> string list \<Rightarrow> nat option" where
  "first_position s [] = None"
| "first_position s (k # ks) =
     (case indexOf s k of Some p \<Rightarrow> Some p | None \<Rightarrow> first_position s ks)"

definition extractSnippet :: "string \<Rightarrow> string list \<Rightarrow> nat \<Rightarrow> string" where
  "extractSnippet contents keywords maxLength =
     (if contents = [] then []
      else
        let lowerContent = toLowerCase contents;
            lowerKeywords = map toLowerCase keywords
        in case first_position lowerContent lowerKeywords of
             None \<Rightarrow> substring contents 0 maxLength @ ''...''
           | Some position \<Rightarrow>
               let start = position - 50;
                   end_pos = min (length contents) (position + maxLength - 50);
                   snippet = substring contents start end_pos;
                   snippet = (if start > 0 then ''...'' @ snippet else snippet);
                   snippet = (if end_pos < length contents then snippet @ ''...'' else snippet)
               in trim snippet)"

text \<open>The five match counts, the weighted sum and its normalisation.\<close>

definition totalScore :: "RegExp \<Rightarrow> resume_doc \<Rightarrow> real" where
  "totalScore searchRegex doc =
     (let contentMatches = match_length searchRegex (js_or (doc_text doc) []);
          nameMatches = match_length searchRegex (js_or (doc_name doc) []);
          emailMatches = match_length searchRegex (js_or (doc_email doc) []);
          skillsMatches = match_length searchRegex (js_or (doc_skills doc) []);
          roleMatches = match_length searchRegex (js_or (doc_role doc) [])
      in real contentMatches * 1.0 + real nameMatches * 2.0 + real emailMatches * 1.5
         + real skillsMatches * 3.0 + real roleMatches * 2.5)"

definition keyword_item :: "RegExp \<Rightarrow> string list \<Rightarrow> resume_doc \<Rightarrow> SearchResultItem" where
  "keyword_item searchRegex keywords doc =
     (let normalizedScore = min (totalScore searchRegex doc / 30) 1.0
      in \<lparr>name = js_or (doc_name doc) ''Unknown'',
          email = js_or (doc_email doc) ''Not found'',
          phoneNumber = js_or (doc_phone doc) ''Not found'',
          score = normalizedScore,
          matchType = Keyword,
          extractedInfo = None,
          llmReasoning = None,
          content = extractSnippet (js_or (doc_text doc) []) keywords 200,
          llmAnalysis = None\<rparr>)"

text \<open>
  \<^verbatim>\<open>results.sort((a, b) => b.score - a.score)\<close>: descending by score; the sort of
  the host is stable, as insertion sort is.
\<close>

definition sort_by_score :: "('a structured_result_scheme) list \<Rightarrow> ('a structured_result_scheme) list" where
  "sort_by_score rs = sort_key (\<lambda>r. - score r) rs"

text \<open>A list of results in descending order of score.\<close>

definition descending :: "('a structured_result_scheme) list \<Rightarrow> bool" where
  "descending rs \<longleftrightarrow> sorted_wrt (\<lambda>a b. score a \<ge> score b) rs"

text \<open>A list of results whose scores are all in [0,1].\<close>

definition scores_in_unit :: "('a structured_result_scheme) list \<Rightarrow> bool" where
  "scores_in_unit rs \<longleftrightarrow> list_all (\<lambda>r. 0 \<le> score r \<and> score r \<le> 1) rs"

text \<open>\<^verbatim>\<open>cursor.limit(n)\<close> of the store: a limit of 0 is no limit.\<close>

definition cursor_limit :: "nat \<Rightarrow> 'a list \<Rightarrow> 'a list" where
  "cursor_limit n xs = (if n = 0 then xs else take n xs)"

text \<open>
  The engine. \<open>collection_find\<close> is \<^verbatim>\<open>collection.find\<close>: given the source of the regular expression
  it returns the documents with a matching field, in the order of the store, or the
  error of the store.
\<close>

definition tokenize :: "string \<Rightarrow> string list" where
  "tokenize query = split_ws (trim query)"

definition keyword_search ::
  "regex_engine \<Rightarrow> (string \<Rightarrow> js_error + resume_doc list) \<Rightarrow> string \<Rightarrow> nat
     \<Rightarrow> js_error + SearchResultItem list" where
  "keyword_search new_RegExp collection_find query topK =
     (let keywords = tokenize query in
      case new_RegExp (join ''|'' keywords) of
        Inl e \<Rightarrow> Inl (Error (''Keyword search failed: '' @ message_of e))
      | Inr searchRegex \<Rightarrow>
          (case collection_find (join ''|'' keywords) of
             Inl e \<Rightarrow> Inl (Error (''Keyword search failed: '' @ message_of e))
           | Inr found \<Rightarrow>
               let documents = cursor_limit (topK * 2) found;
                   results = map (keyword_item searchRegex keywords) documents
               in Inr (take topK (sort_by_score results))))"

subsection \<open>The scoring formula in the words of the specification\<close>

text \<open>
  \<open>countIn(field)\<close>: the number of occurrences of any query token in the field,
  case-insensitive, counted as the positions of the field at which a token starts.
\<close>

definition spec_countIn :: "string list \<Rightarrow> string \<Rightarrow> nat" where
  "spec_countIn tokens field =
     length (filter (\<lambda>i. list_ex (\<lambda>t. t \<noteq> [] \<and> starts_with (toLowerCase (drop i field)) (toLowerCase t))
                           tokens)
               [0..<length field])"

definition spec_raw :: "string list \<Rightarrow> resume_doc \<Rightarrow> real" where
  "spec_raw tokens doc =
     1.0 * real (spec_countIn tokens (js_or (doc_text doc) []))
     + 2.0 * real (spec_countIn tokens (js_or (doc_name doc) []))
     + 1.5 * real (spec_countIn tokens (js_or (doc_email doc) []))
     + 3.0 * real (spec_countIn tokens (js_or (doc_skills doc) []))
     + 2.5 * real (spec_countIn tokens (js_or (doc_role doc) []))"

definition spec_score :: "string list \<Rightarrow> resume_doc \<Rightarrow> real" where
  "spec_score tokens doc = min (spec_raw tokens doc / 30) 1.0"

section \<open>Vector engine (pipelines/retrieval/vectorSearch.ts)\<close>

text \<open>
  A document returned by the vector store: \<^verbatim>\<open>pageContent\<close> and the \<^verbatim>\<open>metadata\<close> the
  engine reads.
\<close>

record vector_doc =
  pageContent :: string
  meta_name :: "string option"
  meta_email :: "string option"
  meta_phone :: "string option"
  meta_phoneNumber :: "string option"

definition normalizeVectorScore :: "real \<Rightarrow> real" where
  "normalizeVectorScore s = max 0 (min 1 s)"

definition extractSnippet_vector :: "string \<Rightarrow> nat \<Rightarrow> string" where
  "extractSnippet_vector contents maxLength =
     (if contents = [] then []
      else trim (substring contents 0 maxLength)
           @ (if length contents > maxLength then ''...'' else []))"

definition vector_item :: "vector_doc \<times> real \<Rightarrow> SearchResultItem" where
  "vector_item p =
     (case p of (doc, s) \<Rightarrow>
        \<lparr>name = js_or (meta_name doc) ''Unknown'',
         email = js_or (meta_email doc) ''Not found'',
         phoneNumber = js_or (meta_phone doc) (js_or (meta_phoneNumber doc) ''Not found''),
         score = normalizeVectorScore s,
         matchType = Vector,
         extractedInfo = None,
         llmReasoning = None,
         content = extractSnippet_vector (pageContent doc) 200,
         llmAnalysis = None\<rparr>)"

text \<open>
  \<open>searchWithScores\<close> is the vector store: for a query and a number of hits it
  returns documents with their similarity, or fails. The engine keeps the order of
  the store.
\<close>

definition vector_search ::
  "(string \<Rightarrow> nat \<Rightarrow> js_error + (vector_doc \<times> real) list) \<Rightarrow> string \<Rightarrow> nat
     \<Rightarrow> js_error + SearchResultItem list" where
  "vector_search searchWithScores query topK =
     (case searchWithScores query topK of
        Inl e \<Rightarrow> Inl (Error (''Vector search failed: '' @ message_of e))
      | Inr found \<Rightarrow> Inr (map vector_item found))"

section \<open>Hybrid engine (hybridSearch.ts)\<close>

record HybridSearchConfig =
  vectorWeight :: real
  keywordWeight :: real

text \<open>
  A \<^verbatim>\<open>Map\<close> with string keys: the entries in the order in which their keys were
  first set. \<^verbatim>\<open>set\<close> on a key that is present replaces the value in place.
\<close>

type_synonym 'v js_map = "(string \<times> 'v) list"

fun map_set :: "string \<Rightarrow> 'v \<Rightarrow> 'v js_map \<Rightarrow> 'v js_map" where
  "map_set k v [] = [(k, v)]"
| "map_set k v ((k', v') # m) = (if k' = k then (k, v) # m else (k', v') # map_set k v m)"

definition map_get :: "'v js_map \<Rightarrow> string \<Rightarrow> 'v option" where
  "map_get m k = map_of m k"

definition map_values :: "'v js_map \<Rightarrow> 'v list" where
  "map_values m = map snd m"

text \<open>The body of the first \<^verbatim>\<open>forEach\<close> of \<^verbatim>\<open>mergeResults\<close>.\<close>

definition merge_vector ::
  "HybridSearchConfig \<Rightarrow> SearchResultItem \<Rightarrow> SearchResultItem js_map \<Rightarrow> SearchResultItem js_map" where
  "merge_vector config r mergedMap =
     (let weightedScore = score r * vectorWeight config
      in map_set (name r) (r\<lparr>score := weightedScore, matchType := Hybrid\<rparr>) mergedMap)"

text \<open>The body of the second: the entry of a name that is present is updated.\<close>

definition merge_keyword ::
  "HybridSearchConfig \<Rightarrow> SearchResultItem \<Rightarrow> SearchResultItem js_map \<Rightarrow> SearchResultItem js_map" where
  "merge_keyword config r mergedMap =
     (let weightedScore = score r * keywordWeight config
      in case map_get mergedMap (name r) of
           Some existing \<Rightarrow>
             let existing = existing\<lparr>score := score existing + weightedScore\<rparr>;
                 existing = (if length (content r) > length (content existing)
                             then existing\<lparr>content := content r\<rparr> else existing)
             in map_set (name r) existing mergedMap
         | None \<Rightarrow>
             map_set (name r) (r\<lparr>score := weightedScore, matchType := Hybrid\<rparr>) mergedMap)"

definition mergeResults ::
  "HybridSearchConfig \<Rightarrow> SearchResultItem list \<Rightarrow> SearchResultItem list
     \<Rightarrow> SearchResultItem list" where
  "mergeResults config vectorResults keywordResults =
     map_values (fold (merge_keyword config) keywordResults
                   (fold (merge_vector config) vectorResults []))"

text \<open>
  The search: both engines are asked for \<open>topK * 3\<close> hits; the failure of either
  one is the failure of the search. (When both fail, the message is that of the one
  that fails first; the model takes the vector engine's.)
\<close>

definition hybrid_search ::
  "HybridSearchConfig \<Rightarrow> (string \<Rightarrow> nat \<Rightarrow> js_error + SearchResultItem list)
     \<Rightarrow> (string \<Rightarrow> nat \<Rightarrow> js_error + SearchResultItem list) \<Rightarrow> string \<Rightarrow> nat
     \<Rightarrow> js_error + SearchResultItem list" where
  "hybrid_search config vectorEngine keywordEngine query topK =
     (let fetchSize = topK * 3 in
      case vectorEngine query fetchSize of
        Inl e \<Rightarrow> Inl (Error (''Hybrid search failed: '' @ message_of e))
      | Inr vectorResults \<Rightarrow>
          (case keywordEngine query fetchSize of
             Inl e \<Rightarrow> Inl (Error (''Hybrid search failed: '' @ message_of e))
           | Inr keywordResults \<Rightarrow>
               let mergedResults = mergeResults config vectorResults keywordResults
               in Inr (take topK (sort_by_score mergedResults))))"

subsection \<open>Notions for stating the properties of the merge\<close>

text \<open>The keys of the merged map are the names of its values.\<close>

definition keyed_by_name :: "SearchResultItem js_map \<Rightarrow> bool" where
  "keyed_by_name m \<longleftrightarrow> list_all (\<lambda>p. name (snd p) = fst p) m"

text \<open>What the two entries of a name become.\<close>

definition weighted :: "real \<Rightarrow> SearchResultItem \<Rightarrow> SearchResultItem" where
  "weighted w r = r\<lparr>score := score r * w, matchType := Hybrid\<rparr>"

definition combined :: "HybridSearchConfig \<Rightarrow> SearchResultItem \<Rightarrow> SearchResultItem \<Rightarrow> SearchResultItem" where
  "combined config v k =
     v\<lparr>score := score v * vectorWeight config + score k * keywordWeight config,
       matchType := Hybrid,
       content := (if length (content k) > length (content v) then content k else content v)\<rparr>"

text \<open>The entry of a name after one keyword result of that name.\<close>

definition keyword_onto :: "HybridSearchConfig \<Rightarrow> SearchResultItem option \<Rightarrow> SearchResultItem \<Rightarrow> SearchResultItem" where
  "keyword_onto config e k =
     (case e of
        Some existing \<Rightarrow>
          existing\<lparr>score := score existing + score k * keywordWeight config,
                   content := (if length (content k) > length (content existing)
                               then content k else content existing)\<rparr>
      | None \<Rightarrow> weighted (keywordWeight config) k)"

section \<open>LLM re-ranker (pipelines/retrieval/llmReranker.ts)\<close>

text \<open>
  What one call of the chat model and the reading of its answer come to: the call
  throws (with the message of the \<^verbatim>\<open>Error\<close>, or something that is no \<^verbatim>\<open>Error\<close>),
  or the answer is not JSON of the expected shape, or it is a JSON document with the
  fields and field types of the schema.
\<close>

datatype 'a llm_outcome = InvokeError "string option" | ParseError | Json 'a

text \<open>\<^verbatim>\<open>ResumeMatch\<close> and \<^verbatim>\<open>LLMRerankResponse\<close>, the verdicts of the model.\<close>

record ResumeMatch =
  match_name :: string
  relevanceScore :: real
  reasoning :: string
  matchesCriteria :: bool
  match_extractedInfo :: "extracted_info option"

record LLMRerankResponse =
  matches :: "ResumeMatch list"
  summary :: string

text \<open>The numeric bound of the schema: \<^verbatim>\<open>relevanceScore: z.number().min(0).max(1)\<close>.\<close>

definition schema_ok :: "LLMRerankResponse \<Rightarrow> bool" where
  "schema_ok resp \<longleftrightarrow> list_all (\<lambda>m. 0 \<le> relevanceScore m \<and> relevanceScore m \<le> 1) (matches resp)"

text \<open>The result of \<^verbatim>\<open>rerankAndFilter\<close>: \<^verbatim>\<open>results\<close> and \<^verbatim>\<open>llmAnalysis\<close>.\<close>

record RerankOutput =
  results :: "SearchResultItem list"
  analysis :: LLMRerankResponse

text \<open>The verdict that the fallbacks make up for a candidate.\<close>

definition fallback_match :: "string \<Rightarrow> SearchResultItem \<Rightarrow> ResumeMatch" where
  "fallback_match why c =
     \<lparr>match_name = name c, relevanceScore = score c, reasoning = why,
      matchesCriteria = True, match_extractedInfo = None\<rparr>"

text \<open>The loop over the verdicts.\<close>

fun rerank_loop :: "SearchResultItem list \<Rightarrow> ResumeMatch list \<Rightarrow> SearchResultItem list" where
  "rerank_loop candidates [] = []"
| "rerank_loop candidates (m # ms) =
     (if \<not> matchesCriteria m then rerank_loop candidates ms
      else case find (\<lambda>c. name c = match_name m) candidates of
             None \<Rightarrow> rerank_loop candidates ms
           | Some originalCandidate \<Rightarrow>
               originalCandidate\<lparr>score := relevanceScore m,
                                 matchType := LlmReranked,
                                 llmReasoning := Some (reasoning m),
                                 extractedInfo := match_extractedInfo m\<rparr>
               # rerank_loop candidates ms)"

definition parse_fallback :: "SearchResultItem list \<Rightarrow> RerankOutput" where
  "parse_fallback candidates =
     \<lparr>results = candidates,
      analysis =
        \<lparr>matches = map (fallback_match ''LLM parsing failed - using original vector search score'')
                     candidates,
         summary = ''Failed to parse LLM response. Returning original vector search results without filtering.''\<rparr>\<rparr>"

definition rerankAndFilter ::
  "SearchResultItem list \<Rightarrow> LLMRerankResponse llm_outcome \<Rightarrow> RerankOutput" where
  "rerankAndFilter candidates outcome =
     (if length candidates = 0
      then \<lparr>results = [], analysis = \<lparr>matches = [], summary = ''No candidates to analyze''\<rparr>\<rparr>
      else case outcome of
        InvokeError e \<Rightarrow>
          \<lparr>results = candidates,
           analysis =
             \<lparr>matches = map (fallback_match ''Error during LLM analysis - score from vector search'')
                          candidates,
              summary = ''Error during LLM analysis: ''
                        @ (case e of Some msg \<Rightarrow> msg | None \<Rightarrow> ''Unknown error'')
                        @ ''. Returning unfiltered results.''\<rparr>\<rparr>
      | ParseError \<Rightarrow> parse_fallback candidates
      | Json parsedResponse \<Rightarrow>
          if \<not> schema_ok parsedResponse then parse_fallback candidates
          else \<lparr>results = sort_by_score (rerank_loop candidates (matches parsedResponse)),
                analysis = parsedResponse\<rparr>)"

section \<open>Retrieval pipeline (pipeline.ts)\<close>

datatype search_type = SearchKeyword | SearchVector | SearchHybrid

record LLMRerankConfig =
  enabled :: bool
  retrievalTopK :: nat

text \<open>
  The pipeline: its three engines, the re-rank configuration and the re-ranker. The
  re-ranker is given as the outcome of the chat model for a query and its
  candidates; it is \<open>None\<close> when the pipeline was built without a chat model.
\<close>

record RetrievalPipeline =
  keywordEngine :: "string \<Rightarrow> nat \<Rightarrow> js_error + SearchResultItem list"
  vectorEngine :: "string \<Rightarrow> nat \<Rightarrow> js_error + SearchResultItem list"
  hybridEngine :: "string \<Rightarrow> nat \<Rightarrow> js_error + SearchResultItem list"
  llmReranker :: "(string \<Rightarrow> SearchResultItem list \<Rightarrow> LLMRerankResponse llm_outcome) option"
  llmRerankConfig :: LLMRerankConfig

text \<open>
  The constructor: the engines over the collection and the vector store, and
  \<^verbatim>\<open>enabled = chatModel ? (llmRerankConfig?.enabled ?? true) : false\<close>,
  \<^verbatim>\<open>retrievalTopK = llmRerankConfig?.retrievalTopK ?? 10\<close>.
\<close>

definition new_RetrievalPipeline ::
  "regex_engine \<Rightarrow> (string \<Rightarrow> js_error + resume_doc list)
     \<Rightarrow> (string \<Rightarrow> nat \<Rightarrow> js_error + (vector_doc \<times> real) list)
     \<Rightarrow> HybridSearchConfig
     \<Rightarrow> (string \<Rightarrow> SearchResultItem list \<Rightarrow> LLMRerankResponse llm_outcome) option
     \<Rightarrow> bool option \<Rightarrow> nat option \<Rightarrow> RetrievalPipeline" where
  "new_RetrievalPipeline new_RegExp collection_find searchWithScores hybridConfig chatModel
       cfg_enabled cfg_retrievalTopK =
     (let is_enabled = (case chatModel of
                          None \<Rightarrow> False
                        | Some _ \<Rightarrow> (case cfg_enabled of None \<Rightarrow> True | Some b \<Rightarrow> b))
      in \<lparr>keywordEngine = keyword_search new_RegExp collection_find,
          vectorEngine = vector_search searchWithScores,
          hybridEngine = hybrid_search hybridConfig (vector_search searchWithScores)
                           (keyword_search new_RegExp collection_find),
          llmReranker = (if is_enabled then chatModel else None),
          llmRerankConfig =
            \<lparr>enabled = is_enabled,
             retrievalTopK = (case cfg_retrievalTopK of None \<Rightarrow> 10 | Some n \<Rightarrow> n)\<rparr>\<rparr>)"

text \<open>The last pass of \<^verbatim>\<open>search\<close>: the verdict of the same name, when there is one.\<close>

definition attach_analysis :: "LLMRerankResponse \<Rightarrow> SearchResultItem \<Rightarrow> SearchResultItem" where
  "attach_analysis a r =
     (case find (\<lambda>m. match_name m = name r) (matches a) of
        Some matchInfo \<Rightarrow> r\<lparr>llmAnalysis := Some (reasoning matchInfo, match_extractedInfo matchInfo)\<rparr>
      | None \<Rightarrow> r)"

text \<open>
  \<^verbatim>\<open>search\<close>; the constructor has set \<^verbatim>\<open>isInitialized\<close>, so the first check never
  throws.
\<close>

definition pipeline_search ::
  "RetrievalPipeline \<Rightarrow> string \<Rightarrow> search_type \<Rightarrow> nat \<Rightarrow> js_error + SearchResultItem list" where
  "pipeline_search p query searchType topK =
     (let retrievalCount = (if enabled (llmRerankConfig p)
                            then retrievalTopK (llmRerankConfig p) else topK);
          stage1 = (case searchType of
                      SearchKeyword \<Rightarrow> keywordEngine p query retrievalCount
                    | SearchVector \<Rightarrow> vectorEngine p query retrievalCount
                    | SearchHybrid \<Rightarrow> hybridEngine p query retrievalCount)
      in case stage1 of
           Inl e \<Rightarrow> Inl e
         | Inr found \<Rightarrow>
             (case (if enabled (llmRerankConfig p) \<and> length found > 0 then llmReranker p else None) of
                Some reranker \<Rightarrow>
                  let rerankedData = rerankAndFilter found (reranker query found)
                  in Inr (map (attach_analysis (analysis rerankedData))
                            (take topK (results rerankedData)))
              | None \<Rightarrow> Inr (take topK found)))"

section \<open>Conversational filter (lib/conversationalFilter.ts)\<close>

text \<open>\<^verbatim>\<open>FilteredResultSchema\<close> and \<^verbatim>\<open>FilterResponseSchema\<close>.\<close>

record FilteredResult =
  fr_name :: string
  fr_reasoning :: string
  fr_matches :: bool

record FilterResponse =
  filteredResults :: "FilteredResult list"
  filter_summary :: string

text \<open>The predicate of \<^verbatim>\<open>cachedResults.filter\<close>: the first decision of the same name.\<close>

definition filter_decision :: "FilterResponse \<Rightarrow> structured_result \<Rightarrow> bool" where
  "filter_decision parsedResponse r =
     (case find (\<lambda>fr. fr_name fr = name r) (filteredResults parsedResponse) of
        Some filterDecision \<Rightarrow> fr_matches filterDecision
      | None \<Rightarrow> False)"

text \<open>\<^verbatim>\<open>filterResults\<close> returns \<^verbatim>\<open>filtered\<close> and \<^verbatim>\<open>summary\<close>.\<close>

definition filterResults ::
  "structured_result list \<Rightarrow> FilterResponse llm_outcome \<Rightarrow> structured_result list \<times> string" where
  "filterResults cachedResults outcome =
     (if length cachedResults = 0 then ([], ''No cached results to filter'')
      else case outcome of
        InvokeError e \<Rightarrow>
          (cachedResults,
           ''Error during filtering: '' @ (case e of Some msg \<Rightarrow> msg | None \<Rightarrow> ''Unknown error''))
      | ParseError \<Rightarrow>
          (cachedResults, ''Failed to parse filter response. Returning all cached results.'')
      | Json parsedResponse \<Rightarrow>
          (filter (filter_decision parsedResponse) cachedResults, filter_summary parsedResponse))"

definition filterKeywords :: "string list" where
  "filterKeywords =
     [''only'', ''filter'', ''show me'', ''display'', ''from those'', ''from the above'',
      ''from previous'', ''from these'', ''among them'', ''out of these'', ''narrow down'',
      ''refine'']"

definition isFilterQuery :: "string \<Rightarrow> bool" where
  "isFilterQuery query =
     (let lowerQuery = toLowerCase query
      in list_ex (\<lambda>keyword. js_includes lowerQuery keyword) filterKeywords)"

section \<open>Chat endpoint (server.ts, lib/conversationalRAGChain)\<close>

text \<open>\<^verbatim>\<open>ConversationStore\<close>: conversation ids to memory managers.\<close>

type_synonym ConversationStore = "string \<rightharpoonup> ChatMemoryManager"

definition getOrCreate :: "ConversationStore \<Rightarrow> string \<Rightarrow> ChatMemoryManager \<times> ConversationStore" where
  "getOrCreate conversations cid =
     (case conversations cid of
        Some manager \<Rightarrow> (manager, conversations)
      | None \<Rightarrow> (let manager = new_ChatMemoryManager cid None
                 in (manager, conversations(cid \<mapsto> manager))))"

text \<open>The fields of the request that the handler uses, and of its answer.\<close>

record ConversationalQueryBody =
  message :: string
  req_conversationId :: "string option"

record ConversationalQueryResult =
  response :: string
  res_conversationId :: string
  messageCount :: nat
  searchResults :: "structured_result list"
  searchType :: string
  resultCount :: nat

text \<open>
  What a request meets outside the handler: the error that the request schema throws
  on an empty message, the identifier that is generated for a new conversation, the
  retrieval pipeline (\<open>None\<close> when it was not initialised) as a function of the
  query and \<open>topK\<close> for the hybrid search, the error that \<^verbatim>\<open>createChatModel()\<close>
  throws (on an invalid temperature, an unsupported provider or a missing API key
  in the process environment; \<open>None\<close> when it returns a model), the answer of the
  chat model in the conversational chain (for the input, the history and the search
  results), the outcome of the chat model in the filter (for the criteria and the
  cached results), and the follow-up patterns of the chain.
\<close>

record chat_env =
  schema_error :: js_error
  generated_id :: string
  createChatModel :: "js_error option"
  retrievalPipeline :: "(string \<Rightarrow> nat \<Rightarrow> js_error + SearchResultItem list) option"
  chain_invoke :: "string \<Rightarrow> BaseMessage list \<Rightarrow> SearchResultItem list \<Rightarrow> js_error + string"
  filter_invoke :: "string \<Rightarrow> structured_result list \<Rightarrow> FilterResponse llm_outcome"
  isFollowUpQuery :: "string \<Rightarrow> bool"

text \<open>The object literal that the handler maps each result to.\<close>

definition structured :: "SearchResultItem \<Rightarrow> structured_result" where
  "structured r =
     \<lparr>name = name r, email = email r, phoneNumber = phoneNumber r, score = score r,
      matchType = matchType r, extractedInfo = extractedInfo r, llmReasoning = llmReasoning r\<rparr>"

text \<open>
  \<^verbatim>\<open>ConversationalRAGChainManager.chat\<close> on a manager whose own
  \<^verbatim>\<open>lastSearchResults\<close> is \<open>previous\<close>: the search (or the previous results of a
  follow-up), the answer of the model, and the exchange added to the memory. An
  error leaves the memory as it was.
\<close>

definition rag_chat ::
  "chat_env \<Rightarrow> (string \<Rightarrow> nat \<Rightarrow> js_error + SearchResultItem list) \<Rightarrow> SearchResultItem list
     \<Rightarrow> ChatMemoryManager \<Rightarrow> string \<Rightarrow> nat
     \<Rightarrow> (js_error + string \<times> SearchResultItem list) \<times> ChatMemoryManager" where
  "rag_chat env pipeline previous memoryManager input topK =
     (let isFollowUp = isFollowUpQuery env input;
          found = (if isFollowUp \<and> length previous > 0 then Inr previous
                   else pipeline input topK)
      in case found of
           Inl e \<Rightarrow> (Inl e, memoryManager)
         | Inr found_results \<Rightarrow>
             (case chain_invoke env input (chat_history memoryManager) found_results of
                Inl e \<Rightarrow> (Inl e, memoryManager)
              | Inr answer \<Rightarrow>
                  (Inr (answer, found_results), addExchange input answer memoryManager)))"

text \<open>
  The handler of \<^verbatim>\<open>POST /chat\<close>. It returns the answer (or the error that becomes
  the status 400) and the conversation store afterwards. The memory of the
  conversation is fetched or created before the chat model is built, so a request
  that fails there leaves a new conversation in the store. The chain manager is
  built for each request, so its own previous results are empty. Logging is left
  out.
\<close>

definition chat_endpoint ::
  "chat_env \<Rightarrow> ConversationStore \<Rightarrow> ConversationalQueryBody
     \<Rightarrow> (js_error + ConversationalQueryResult) \<times> ConversationStore" where
  "chat_endpoint env conversations parsed =
     (if length (message parsed) < 1 then (Inl (schema_error env), conversations)
      else case retrievalPipeline env of
        None \<Rightarrow> (Inl (Error ''Retrieval pipeline not initialized. Please ensure MongoDB is connected.''),
                 conversations)
      | Some pipeline \<Rightarrow>
          let conversationId = js_or (req_conversationId parsed) (generated_id env);
              isNewConversation = (js_or (req_conversationId parsed) [] = []);
              (memoryManager, conversations) = getOrCreate conversations conversationId
          in case createChatModel env of
               Some e \<Rightarrow> (Inl e, conversations)
             | None \<Rightarrow>
          let isFilter = isFilterQuery (message parsed);
              hasCachedResults = hasSearchResults memoryManager;
              isExistingConversation = \<not> isNewConversation;
              shouldUseFilter = hasCachedResults \<and> (isFilter \<or> isExistingConversation)
          in if shouldUseFilter then
               let cachedResults = getLastSearchResults memoryManager;
                   (filtered, summary_text) =
                      filterResults cachedResults (filter_invoke env (message parsed) cachedResults);
                   memoryManager = addExchange (message parsed) summary_text memoryManager
               in (Inr \<lparr>response = summary_text,
                        res_conversationId = conversationId,
                        messageCount = getMessageCount memoryManager,
                        searchResults = filtered,
                        searchType = ''filter'',
                        resultCount = length filtered\<rparr>,
                   conversations(conversationId \<mapsto> memoryManager))
             else
               (case rag_chat env pipeline [] memoryManager (message parsed) 10 of
                  (Inl e, _) \<Rightarrow> (Inl e, conversations)
                | (Inr (answer, found_results), memoryManager) \<Rightarrow>
                    let structuredResults = map structured found_results;
                        memoryManager = setLastSearchResults structuredResults memoryManager
                    in (Inr \<lparr>response = answer,
                             res_conversationId = conversationId,
                             messageCount = getMessageCount memoryManager,
                             searchResults = structuredResults,
                             searchType = ''hybrid'',
                             resultCount = length found_results\<rparr>,
                        conversations(conversationId \<mapsto> memoryManager))))"

text \<open>Requests handled one after the other, each with what it meets.\<close>

fun chat_run ::
  "ConversationStore \<Rightarrow> (chat_env \<times> ConversationalQueryBody) list
     \<Rightarrow> (js_error + ConversationalQueryResult) list \<times> ConversationStore" where
  "chat_run conversations [] = ([], conversations)"
| "chat_run conversations ((env, parsed) # reqs) =
     (case chat_endpoint env conversations parsed of
        (r, conversations') \<Rightarrow>
          (case chat_run conversations' reqs of
             (rs, conversations'') \<Rightarrow> (r # rs, conversations'')))"

text \<open>The cache of a conversation; a conversation that is not in the store has none.\<close>

definition cache_of :: "ConversationStore \<Rightarrow> string \<Rightarrow> structured_result list" where
  "cache_of conversations cid =
     (case conversations cid of None \<Rightarrow> [] | Some manager \<Rightarrow> lastSearchResults manager)"

text \<open>
  The results of the most recent answer of this conversation that came from the
  retrieval pipeline, in a list of answers in the order of the requests.
\<close>

fun last_retrieval ::
  "string \<Rightarrow> (js_error + ConversationalQueryResult) list \<Rightarrow> structured_result list option" where
  "last_retrieval cid [] = None"
| "last_retrieval cid (r # rs) =
     (case last_retrieval cid rs of
        Some found \<Rightarrow> Some found
      | None \<Rightarrow>
          (case r of
             Inl e \<Rightarrow> None
           | Inr q \<Rightarrow> if res_conversationId q = cid \<and> searchType q = ''hybrid''
                      then Some (searchResults q) else None))"

section \<open>Example data\<close>

text \<open>A result item with the given name, score, match type and snippet, for the examples.\<close>

definition item :: "string \<Rightarrow> real \<Rightarrow> match_type \<Rightarrow> string \<Rightarrow> SearchResultItem" where
  "item n s t c =
     \<lparr>name = n, email = ''Not found'', phoneNumber = ''Not found'', score = s, matchType = t,
      extractedInfo = None, llmReasoning = None, content = c, llmAnalysis = None\<rparr>"

text \<open>A verdict of the re-ranker and a decision of the filter, for the examples.\<close>

definition verdict :: "string \<Rightarrow> real \<Rightarrow> bool \<Rightarrow> ResumeMatch" where
  "verdict n s b =
     \<lparr>match_name = n, relevanceScore = s, reasoning = ''stated in the resume'',
      matchesCriteria = b, match_extractedInfo = None\<rparr>"

definition decision :: "string \<Rightarrow> bool \<Rightarrow> FilteredResult" where
  "decision n b = \<lparr>fr_name = n, fr_reasoning = ''stated in the resume'', fr_matches = b\<rparr>"

text \<open>A document of the collection with the given text, name, e-mail, skills and role.\<close>

definition resume :: "string \<Rightarrow> string \<Rightarrow> string \<Rightarrow> string \<Rightarrow> string \<Rightarrow> resume_doc" where
  "resume t n e s r =
     \<lparr>doc_text = Some t, doc_name = Some n, doc_email = Some e, doc_skills = Some s,
      doc_role = Some r, doc_phone = None\<rparr>"

text \<open>A document of the vector store with the given content and name.\<close>

definition stored :: "string \<Rightarrow> string \<Rightarrow> vector_doc" where
  "stored c n =
     \<lparr>pageContent = c, meta_name = Some n, meta_email = None, meta_phone = None,
      meta_phoneNumber = None\<rparr>"

text \<open>
  A setting for the chat endpoint: a pipeline that finds the candidate B, a chat
  model that answers, and a filter model that keeps the candidate A; and a store
  with one conversation that has the candidate A in its cache.
\<close>

definition example_env :: chat_env where
  "example_env =
     \<lparr>schema_error = Error ''String must contain at least 1 character(s)'',
      generated_id = ''conv_1'',
      createChatModel = None,
      retrievalPipeline = Some (\<lambda>query k. Inr [item ''B'' (9 / 10) LlmReranked ''b'']),
      chain_invoke = (\<lambda>input history found. Inr ''one candidate''),
      filter_invoke = (\<lambda>criteria cached.
         Json \<lparr>filteredResults = [decision ''A'' True], filter_summary = ''1 of 1''\<rparr>),
      isFollowUpQuery = (\<lambda>input. False)\<rparr>"

definition example_store :: ConversationStore where
  "example_store =
     Map.empty(''conv_1'' \<mapsto>
       setLastSearchResults [structured (item ''A'' (8 / 10) LlmReranked ''a'')]
         (new_ChatMemoryManager ''conv_1'' None))"

section \<open>Properties of the conversation memory\<close>

lemma maxMessages_addExchange: "maxMessages (addExchange u a m) = maxMessages m"
  by (simp add: addExchange_def trimMessages_def saveContext_def getMessages_def Let_def)

lemma chat_history_addExchange:
  "chat_history (addExchange u a m) =
     last_n (maxMessages m) (chat_history m @ [HumanMessage u, AIMessage a])"
  by (simp add: addExchange_def trimMessages_def saveContext_def getMessages_def Let_def
      last_n_def)

lemma last_n_append_last_n:
  "last_n n (last_n n xs @ ys) = last_n n (xs @ ys)"
proof (cases "n \<le> length xs")
  case True
  then show ?thesis by (simp add: last_n_def add.commute)
next
  case False
  then show ?thesis by (simp add: last_n_def)
qed

lemma maxMessages_addExchanges: "maxMessages (addExchanges xs m) = maxMessages m"
  by (induction xs m rule: addExchanges.induct) (simp_all add: maxMessages_addExchange)

lemma chat_history_addExchanges:
  "chat_history (addExchanges xs m) =
     last_n (maxMessages m) (last_n (maxMessages m) (chat_history m) @ exchange_messages xs)
   \<or> xs = []"
proof (induction xs m rule: addExchanges.induct)
  case (1 m)
  show ?case by simp
next
  case (2 u a xs m)
  show ?case
  proof (cases xs)
    case Nil
    then show ?thesis
      by (simp add: chat_history_addExchange last_n_append_last_n)
  next
    case (Cons x ys)
    with 2 have "chat_history (addExchanges xs (addExchange u a m)) =
        last_n (maxMessages m)
          (last_n (maxMessages m) (chat_history (addExchange u a m)) @ exchange_messages xs)"
      by (simp add: maxMessages_addExchange)
    also have "\<dots> = last_n (maxMessages m)
          (chat_history (addExchange u a m) @ exchange_messages xs)"
      by (rule last_n_append_last_n)
    also have "\<dots> = last_n (maxMessages m)
          ((chat_history m @ [HumanMessage u, AIMessage a]) @ exchange_messages xs)"
      by (simp only: chat_history_addExchange last_n_append_last_n)
    also have "\<dots> = last_n (maxMessages m)
          (last_n (maxMessages m) (chat_history m) @ exchange_messages ((u, a) # xs))"
      by (simp add: last_n_append_last_n)
    finally show ?thesis by simp
  qed
qed

lemma length_last_n: "length (last_n n xs) \<le> n"
  by (simp add: last_n_def)

lemma last_n_all: "length xs \<le> n \<Longrightarrow> last_n n xs = xs"
  by (simp add: last_n_def)

text \<open>
  C7. A memory within its bound stays within it under every sequence of
  \<^verbatim>\<open>addExchange\<close> calls, and holds the last \<open>maxMessages\<close> messages of its history
  followed by the appended ones: the oldest are dropped first. With a bound of 4,
  after three exchanges the memory holds the second and third; a fourth exchange
  drops the messages at positions 0 and 1 and its pair takes the positions 2 and 3.
\<close>

theorem addExchange_bounded_fifo:
  assumes "length (chat_history m) \<le> maxMessages m"
  shows "maxMessages (addExchanges xs m) = maxMessages m
    \<and> getMessageCount (addExchanges xs m) \<le> maxMessages m
    \<and> getMessages (addExchanges xs m) =
          last_n (maxMessages m) (chat_history m @ exchange_messages xs)
    \<and> getMessages (addExchanges [(u1, a1), (u2, a2), (u3, a3)] (new_ChatMemoryManager cid (Some 4)))
          = [HumanMessage u2, AIMessage a2, HumanMessage u3, AIMessage a3]
    \<and> getMessages (addExchange u4 a4
          (addExchanges [(u1, a1), (u2, a2), (u3, a3)] (new_ChatMemoryManager cid (Some 4))))
          = [HumanMessage u3, AIMessage a3, HumanMessage u4, AIMessage a4]"
proof -
  have bound: "maxMessages (addExchanges xs m) = maxMessages m"
    by (rule maxMessages_addExchanges)
  have hist: "chat_history (addExchanges xs m) =
      last_n (maxMessages m) (chat_history m @ exchange_messages xs)"
  proof (cases xs)
    case Nil
    with assms show ?thesis by (simp add: last_n_all)
  next
    case (Cons x ys)
    then have "chat_history (addExchanges xs m) =
        last_n (maxMessages m) (last_n (maxMessages m) (chat_history m) @ exchange_messages xs)"
      using chat_history_addExchanges [of xs m] by simp
    then show ?thesis by (simp only: last_n_append_last_n)
  qed
  then have msgs: "getMessages (addExchanges xs m) =
      last_n (maxMessages m) (chat_history m @ exchange_messages xs)"
    by (simp add: getMessages_def)
  from hist have count: "getMessageCount (addExchanges xs m) \<le> maxMessages m"
    by (simp add: getMessageCount_def getMessages_def length_last_n)
  have three: "getMessages (addExchanges [(u1, a1), (u2, a2), (u3, a3)]
        (new_ChatMemoryManager cid (Some 4)))
      = [HumanMessage u2, AIMessage a2, HumanMessage u3, AIMessage a3]"
    by (simp add: getMessages_def chat_history_addExchange maxMessages_addExchange
        new_ChatMemoryManager_def last_n_def)
  have four: "getMessages (addExchange u4 a4
      (addExchanges [(u1, a1), (u2, a2), (u3, a3)] (new_ChatMemoryManager cid (Some 4))))
      = [HumanMessage u3, AIMessage a3, HumanMessage u4, AIMessage a4]"
    by (simp add: getMessages_def chat_history_addExchange maxMessages_addExchange
        new_ChatMemoryManager_def last_n_def)
  from bound count msgs three four show ?thesis by blast
qed

theorem addExchange_bounded_fifo_witness:
  "length (chat_history (new_ChatMemoryManager ''c1'' (Some 2))) \<le> maxMessages (new_ChatMemoryManager ''c1'' (Some 2))
   \<and> getMessageCount (addExchanges [(''q1'', ''r1''), (''q2'', ''r2'')] (new_ChatMemoryManager ''c1'' (Some 2))) \<le> 2
   \<and> getMessages (addExchanges [(''q1'', ''r1''), (''q2'', ''r2'')] (new_ChatMemoryManager ''c1'' (Some 2)))
       = [HumanMessage ''q2'', AIMessage ''r2'']"
proof -
  have h: "length (chat_history (new_ChatMemoryManager ''c1'' (Some 2)))
      \<le> maxMessages (new_ChatMemoryManager ''c1'' (Some 2))"
    by (simp add: new_ChatMemoryManager_def)
  show ?thesis
    using h addExchange_bounded_fifo [OF h, of "[(''q1'', ''r1''), (''q2'', ''r2'')]"]
    by (simp add: new_ChatMemoryManager_def last_n_def)
qed

text \<open>
  C8, as stated, fails: \<^verbatim>\<open>clear\<close> on a memory with one cached result leaves the
  cache as it is.
\<close>

theorem clear_keeps_cache_counterexample:
  "hasSearchResults (clear (setLastSearchResults
      [\<lparr>name = ''A'', email = ''a@x.org'', phoneNumber = ''1'', score = 1 / 2,
        matchType = Hybrid, extractedInfo = None, llmReasoning = None\<rparr>]
      (addExchange ''q'' ''r'' (new_ChatMemoryManager ''c1'' None))))
   \<and> getMessages (clear (setLastSearchResults
      [\<lparr>name = ''A'', email = ''a@x.org'', phoneNumber = ''1'', score = 1 / 2,
        matchType = Hybrid, extractedInfo = None, llmReasoning = None\<rparr>]
      (addExchange ''q'' ''r'' (new_ChatMemoryManager ''c1'' None)))) = []"
  by (simp add: hasSearchResults_def clear_def setLastSearchResults_def getMessages_def)

text \<open>
  C8, amended. \<^verbatim>\<open>clear\<close> empties the message history and leaves the cached results
  as they are; \<^verbatim>\<open>clearSearchResults\<close> empties the cache and leaves the history as it
  is; after both, the history is empty and there are no cached results.
\<close>

theorem clear_and_clearSearchResults:
  "getMessages (clear m) = []
   \<and> lastSearchResults (clear m) = lastSearchResults m
   \<and> lastSearchResults (clearSearchResults m) = []
   \<and> getMessages (clearSearchResults m) = getMessages m
   \<and> getMessages (clearSearchResults (clear m)) = []
   \<and> \<not> hasSearchResults (clearSearchResults (clear m))"
  by (simp add: clear_def clearSearchResults_def getMessages_def hasSearchResults_def)

section \<open>Properties of the hybrid merge\<close>

lemma map_of_map_set:
  "map_of (map_set k v m) k' = (if k' = k then Some v else map_of m k')"
  by (induction m) auto

lemma keys_map_set_present:
  "k \<in> fst ` set m \<Longrightarrow> map fst (map_set k v m) = map fst m"
  by (induction m) force+

lemma keys_map_set_absent:
  "k \<notin> fst ` set m \<Longrightarrow> map fst (map_set k v m) = map fst m @ [k]"
  by (induction m) auto

lemma distinct_map_set:
  "distinct (map fst m) \<Longrightarrow> distinct (map fst (map_set k v m))"
  by (cases "k \<in> fst ` set m") (simp_all add: keys_map_set_present keys_map_set_absent)

lemma keyed_by_name_map_set:
  "keyed_by_name m \<Longrightarrow> name v = k \<Longrightarrow> keyed_by_name (map_set k v m)"
  by (induction m) (auto simp: keyed_by_name_def)

lemma find_values_keyed:
  "keyed_by_name m \<Longrightarrow> find (\<lambda>e. name e = n) (map_values m) = map_of m n"
  by (induction m) (auto simp: keyed_by_name_def map_values_def)

lemma keyed_by_name_lookup:
  "keyed_by_name m \<Longrightarrow> map_of m k = Some e \<Longrightarrow> name e = k"
  by (induction m) (auto simp: keyed_by_name_def split: if_splits)

lemma keyed_merge_vector:
  "keyed_by_name m \<Longrightarrow> keyed_by_name (merge_vector config r m)"
  by (simp add: merge_vector_def keyed_by_name_map_set)

lemma keyed_merge_keyword:
  assumes "keyed_by_name m"
  shows "keyed_by_name (merge_keyword config r m)"
proof (cases "map_of m (name r)")
  case None
  with assms show ?thesis
    by (simp add: merge_keyword_def map_get_def keyed_by_name_map_set)
next
  case (Some e)
  with assms have "name e = name r" by (rule keyed_by_name_lookup)
  with assms Some show ?thesis
    by (simp add: merge_keyword_def map_get_def Let_def keyed_by_name_map_set)
qed

lemma keyed_fold_vector:
  "keyed_by_name m \<Longrightarrow> keyed_by_name (fold (merge_vector config) vs m)"
  by (induction vs arbitrary: m) (simp_all add: keyed_merge_vector)

lemma keyed_fold_keyword:
  "keyed_by_name m \<Longrightarrow> keyed_by_name (fold (merge_keyword config) ks m)"
  by (induction ks arbitrary: m) (simp_all add: keyed_merge_keyword)

lemma distinct_merge_vector:
  "distinct (map fst m) \<Longrightarrow> distinct (map fst (merge_vector config r m))"
  by (simp add: merge_vector_def distinct_map_set)

lemma distinct_merge_keyword:
  "distinct (map fst m) \<Longrightarrow> distinct (map fst (merge_keyword config r m))"
  by (simp add: merge_keyword_def Let_def distinct_map_set split: option.splits)

lemma distinct_fold_vector:
  "distinct (map fst m) \<Longrightarrow> distinct (map fst (fold (merge_vector config) vs m))"
  by (induction vs arbitrary: m) (simp_all add: distinct_merge_vector)

lemma distinct_fold_keyword:
  "distinct (map fst m) \<Longrightarrow> distinct (map fst (fold (merge_keyword config) ks m))"
  by (induction ks arbitrary: m) (simp_all add: distinct_merge_keyword)

lemma names_keyed: "keyed_by_name m \<Longrightarrow> map name (map_values m) = map fst m"
  by (induction m) (auto simp: keyed_by_name_def map_values_def)

lemma find_distinct_names:
  "distinct (map name xs) \<Longrightarrow> x \<in> set xs \<Longrightarrow> find (\<lambda>y. name y = name x) xs = Some x"
  by (induction xs) (auto simp: image_iff)

lemma find_None_names:
  "find (\<lambda>y. name y = n) xs = None \<longleftrightarrow> n \<notin> name ` set xs"
  by (induction xs) auto

lemma lookup_merge_vector:
  "map_of (merge_vector config v m) n =
     (if n = name v then Some (weighted (vectorWeight config) v) else map_of m n)"
  by (simp add: merge_vector_def weighted_def map_of_map_set)

lemma lookup_fold_vector:
  "distinct (map name vs) \<Longrightarrow>
   map_of (fold (merge_vector config) vs m) n =
     (case find (\<lambda>v. name v = n) vs of
        Some v \<Rightarrow> Some (weighted (vectorWeight config) v)
      | None \<Rightarrow> map_of m n)"
proof (induction vs arbitrary: m)
  case Nil
  show ?case by simp
next
  case (Cons v vs)
  then have d: "distinct (map name vs)" and nv: "name v \<notin> name ` set vs" by auto
  show ?case
  proof (cases "name v = n")
    case True
    with nv have "find (\<lambda>v. name v = n) vs = None" by (simp add: find_None_names)
    with True show ?thesis
      by (simp add: Cons.IH [OF d] lookup_merge_vector)
  next
    case False
    then have "n \<noteq> name v" by blast
    with False show ?thesis
      by (simp add: Cons.IH [OF d] lookup_merge_vector split: option.splits)
  qed
qed

lemma lookup_merge_keyword:
  "map_of (merge_keyword config k m) n =
     (if n = name k then Some (keyword_onto config (map_of m n) k) else map_of m n)"
  by (auto simp: merge_keyword_def keyword_onto_def weighted_def map_get_def Let_def
      map_of_map_set split: option.splits)

lemma lookup_fold_keyword:
  "distinct (map name ks) \<Longrightarrow>
   map_of (fold (merge_keyword config) ks m) n =
     (case find (\<lambda>k. name k = n) ks of
        Some k \<Rightarrow> Some (keyword_onto config (map_of m n) k)
      | None \<Rightarrow> map_of m n)"
proof (induction ks arbitrary: m)
  case Nil
  show ?case by simp
next
  case (Cons k ks)
  then have d: "distinct (map name ks)" and nk: "name k \<notin> name ` set ks" by auto
  show ?case
  proof (cases "name k = n")
    case True
    with nk have "find (\<lambda>k. name k = n) ks = None" by (simp add: find_None_names)
    with True show ?thesis
      by (simp add: Cons.IH [OF d] lookup_merge_keyword)
  next
    case False
    then have "n \<noteq> name k" by blast
    then show ?thesis
      by (simp add: Cons.IH [OF d] lookup_merge_keyword False split: option.splits)
  qed
qed

lemma keyed_merged:
  "keyed_by_name (fold (merge_keyword config) ks (fold (merge_vector config) vs []))"
  by (rule keyed_fold_keyword, rule keyed_fold_vector) (simp add: keyed_by_name_def)

lemma find_mergeResults:
  assumes "distinct (map name vs)" and "distinct (map name ks)"
  shows "find (\<lambda>e. name e = n) (mergeResults config vs ks) =
     (case find (\<lambda>k. name k = n) ks of
        Some k \<Rightarrow>
          (case find (\<lambda>v. name v = n) vs of
             Some v \<Rightarrow> Some (combined config v k)
           | None \<Rightarrow> Some (weighted (keywordWeight config) k))
      | None \<Rightarrow>
          (case find (\<lambda>v. name v = n) vs of
             Some v \<Rightarrow> Some (weighted (vectorWeight config) v)
           | None \<Rightarrow> None))"
  unfolding mergeResults_def
  by (simp add: find_values_keyed [OF keyed_merged] lookup_fold_keyword [OF assms(2)]
      lookup_fold_vector [OF assms(1)] keyword_onto_def combined_def weighted_def
      split: option.splits)

lemma distinct_names_mergeResults: "distinct (map name (mergeResults config vs ks))"
proof -
  have "distinct (map fst (fold (merge_keyword config) ks (fold (merge_vector config) vs [])))"
    by (rule distinct_fold_keyword, rule distinct_fold_vector) simp
  then show ?thesis
    unfolding mergeResults_def by (simp add: names_keyed [OF keyed_merged])
qed

lemma find_Some_mem: "find P xs = Some x \<Longrightarrow> x \<in> set xs"
  by (induction xs) (auto split: if_splits)

text \<open>
  C1, as stated, fails: two keyword results of the same name (two documents without
  a name are both called \<^verbatim>\<open>Unknown\<close>) and no vector result give one merged entry,
  whose score is the sum of both weighted scores.
\<close>

theorem mergeResults_duplicate_name_counterexample:
  "map (\<lambda>e. (name e, score e))
     (mergeResults \<lparr>vectorWeight = 7 / 10, keywordWeight = 3 / 10\<rparr> []
        [\<lparr>name = ''Unknown'', email = ''a@x.org'', phoneNumber = ''Not found'', score = 1 / 10,
          matchType = Keyword, extractedInfo = None, llmReasoning = None,
          content = ''java developer'', llmAnalysis = None\<rparr>,
         \<lparr>name = ''Unknown'', email = ''b@x.org'', phoneNumber = ''Not found'', score = 2 / 10,
          matchType = Keyword, extractedInfo = None, llmReasoning = None,
          content = ''java tester'', llmAnalysis = None\<rparr>])
   = [(''Unknown'', 9 / 100)]
   \<and> (1 / 10) * (3 / 10) = (3 / 100 :: real) \<and> (2 / 10) * (3 / 10) = (6 / 100 :: real)"
  by (simp add: mergeResults_def merge_keyword_def merge_vector_def map_get_def
      map_values_def Let_def)

text \<open>
  C1, amended. When no name occurs twice in the vector results and no name occurs
  twice in the keyword results: the merged list has one entry for each name of
  either input; for a name in both inputs it is the vector result with the score
  \<open>v_score * w_v + k_score * w_k\<close>, the match type hybrid and the longer of the two
  snippets (the vector result's when they are equally long); for a name only in the
  vector results it is the vector result with the score \<open>v_score * w_v\<close>, and for
  a name only in the keyword results the keyword result with the score
  \<open>k_score * w_k\<close>, both with the match type hybrid.
\<close>

theorem mergeResults_distinct_names:
  assumes "distinct (map name vs)" and "distinct (map name ks)"
  shows "distinct (map name (mergeResults config vs ks))
    \<and> name ` set (mergeResults config vs ks) = name ` set vs \<union> name ` set ks
    \<and> (\<forall>v\<in>set vs. \<forall>k\<in>set ks. name k = name v \<longrightarrow>
          v\<lparr>score := score v * vectorWeight config + score k * keywordWeight config,
            matchType := Hybrid,
            content := (if length (content k) > length (content v) then content k else content v)\<rparr>
          \<in> set (mergeResults config vs ks))
    \<and> (\<forall>v\<in>set vs. name v \<notin> name ` set ks \<longrightarrow>
          v\<lparr>score := score v * vectorWeight config, matchType := Hybrid\<rparr>
          \<in> set (mergeResults config vs ks))
    \<and> (\<forall>k\<in>set ks. name k \<notin> name ` set vs \<longrightarrow>
          k\<lparr>score := score k * keywordWeight config, matchType := Hybrid\<rparr>
          \<in> set (mergeResults config vs ks))"
proof -
  note fm = find_mergeResults [OF assms, of _ config]
  have names: "name ` set (mergeResults config vs ks) = name ` set vs \<union> name ` set ks"
  proof (rule set_eqI)
    fix n
    have "n \<in> name ` set (mergeResults config vs ks)
        \<longleftrightarrow> find (\<lambda>e. name e = n) (mergeResults config vs ks) \<noteq> None"
      by (simp add: find_None_names)
    also have "\<dots> \<longleftrightarrow> find (\<lambda>v. name v = n) vs \<noteq> None \<or> find (\<lambda>k. name k = n) ks \<noteq> None"
      by (simp add: fm split: option.splits)
    also have "\<dots> \<longleftrightarrow> n \<in> name ` set vs \<union> name ` set ks"
      by (simp add: find_None_names)
    finally show "n \<in> name ` set (mergeResults config vs ks)
        \<longleftrightarrow> n \<in> name ` set vs \<union> name ` set ks" .
  qed
  have both: "combined config v k \<in> set (mergeResults config vs ks)"
    if "v \<in> set vs" "k \<in> set ks" "name k = name v" for v k
  proof -
    have "find (\<lambda>e. name e = name v) (mergeResults config vs ks) = Some (combined config v k)"
      using find_distinct_names [OF assms(1) that(1)]
        find_distinct_names [OF assms(2) that(2)] that(3)
      by (simp add: fm)
    then show ?thesis by (rule find_Some_mem)
  qed
  have only_v: "weighted (vectorWeight config) v \<in> set (mergeResults config vs ks)"
    if "v \<in> set vs" "name v \<notin> name ` set ks" for v
  proof -
    from that(2) have "find (\<lambda>k. name k = name v) ks = None"
      by (simp add: find_None_names)
    then have "find (\<lambda>e. name e = name v) (mergeResults config vs ks)
        = Some (weighted (vectorWeight config) v)"
      using find_distinct_names [OF assms(1) that(1)] by (simp add: fm)
    then show ?thesis by (rule find_Some_mem)
  qed
  have only_k: "weighted (keywordWeight config) k \<in> set (mergeResults config vs ks)"
    if "k \<in> set ks" "name k \<notin> name ` set vs" for k
  proof -
    from that(2) have "find (\<lambda>v. name v = name k) vs = None"
      by (simp add: find_None_names)
    then have "find (\<lambda>e. name e = name k) (mergeResults config vs ks)
        = Some (weighted (keywordWeight config) k)"
      using find_distinct_names [OF assms(2) that(1)] by (simp add: fm)
    then show ?thesis by (rule find_Some_mem)
  qed
  from names both only_v only_k distinct_names_mergeResults [of config vs ks]
  show ?thesis
    unfolding combined_def weighted_def by blast
qed

theorem mergeResults_distinct_names_witness:
  "distinct (map name [item ''A'' (9 / 10) Vector ''QA lead'', item ''C'' (7 / 10) Vector ''tester''])
   \<and> distinct (map name [item ''A'' (5 / 10) Keyword ''QA lead, Selenium'', item ''B'' (4 / 10) Keyword ''dev''])
   \<and> item ''A'' (78 / 100) Hybrid ''QA lead, Selenium''
       \<in> set (mergeResults \<lparr>vectorWeight = 7 / 10, keywordWeight = 3 / 10\<rparr>
             [item ''A'' (9 / 10) Vector ''QA lead'', item ''C'' (7 / 10) Vector ''tester'']
             [item ''A'' (5 / 10) Keyword ''QA lead, Selenium'', item ''B'' (4 / 10) Keyword ''dev''])
   \<and> item ''C'' (49 / 100) Hybrid ''tester''
       \<in> set (mergeResults \<lparr>vectorWeight = 7 / 10, keywordWeight = 3 / 10\<rparr>
             [item ''A'' (9 / 10) Vector ''QA lead'', item ''C'' (7 / 10) Vector ''tester'']
             [item ''A'' (5 / 10) Keyword ''QA lead, Selenium'', item ''B'' (4 / 10) Keyword ''dev''])
   \<and> item ''B'' (12 / 100) Hybrid ''dev''
       \<in> set (mergeResults \<lparr>vectorWeight = 7 / 10, keywordWeight = 3 / 10\<rparr>
             [item ''A'' (9 / 10) Vector ''QA lead'', item ''C'' (7 / 10) Vector ''tester'']
             [item ''A'' (5 / 10) Keyword ''QA lead, Selenium'', item ''B'' (4 / 10) Keyword ''dev''])"
proof -
  let ?vs = "[item ''A'' (9 / 10) Vector ''QA lead'', item ''C'' (7 / 10) Vector ''tester'']"
  let ?ks = "[item ''A'' (5 / 10) Keyword ''QA lead, Selenium'', item ''B'' (4 / 10) Keyword ''dev'']"
  let ?cfg = "\<lparr>vectorWeight = 7 / 10, keywordWeight = 3 / 10\<rparr>"
  have dv: "distinct (map name ?vs)" and dk: "distinct (map name ?ks)"
    by (simp_all add: item_def)
  note m = mergeResults_distinct_names [OF dv dk, of ?cfg]
  from m have "item ''A'' (9 / 10) Vector ''QA lead''
      \<lparr>score := score (item ''A'' (9 / 10) Vector ''QA lead'') * vectorWeight ?cfg
         + score (item ''A'' (5 / 10) Keyword ''QA lead, Selenium'') * keywordWeight ?cfg,
       matchType := Hybrid,
       content := (if length (content (item ''A'' (5 / 10) Keyword ''QA lead, Selenium''))
                      > length (content (item ''A'' (9 / 10) Vector ''QA lead''))
                   then content (item ''A'' (5 / 10) Keyword ''QA lead, Selenium'')
                   else content (item ''A'' (9 / 10) Vector ''QA lead''))\<rparr>
      \<in> set (mergeResults ?cfg ?vs ?ks)"
    by (simp add: item_def)
  then have a: "item ''A'' (78 / 100) Hybrid ''QA lead, Selenium'' \<in> set (mergeResults ?cfg ?vs ?ks)"
    by (simp add: item_def)
  from m have "item ''C'' (7 / 10) Vector ''tester''
      \<lparr>score := score (item ''C'' (7 / 10) Vector ''tester'') * vectorWeight ?cfg, matchType := Hybrid\<rparr>
      \<in> set (mergeResults ?cfg ?vs ?ks)"
    by (simp add: item_def)
  then have c: "item ''C'' (49 / 100) Hybrid ''tester'' \<in> set (mergeResults ?cfg ?vs ?ks)"
    by (simp add: item_def)
  from m have "item ''B'' (4 / 10) Keyword ''dev''
      \<lparr>score := score (item ''B'' (4 / 10) Keyword ''dev'') * keywordWeight ?cfg, matchType := Hybrid\<rparr>
      \<in> set (mergeResults ?cfg ?vs ?ks)"
    by (simp add: item_def)
  then have b: "item ''B'' (12 / 100) Hybrid ''dev'' \<in> set (mergeResults ?cfg ?vs ?ks)"
    by (simp add: item_def)
  from dv dk a c b show ?thesis by blast
qed

section \<open>Properties of the re-ranker and of the conversational filter\<close>

lemma descending_sort_by_score: "descending (sort_by_score rs)"
proof -
  have "sorted (map (\<lambda>r. - score r) (sort_key (\<lambda>r. - score r) rs))"
    by (rule sorted_sort_key)
  then show ?thesis
    by (simp add: descending_def sort_by_score_def sorted_map)
qed

lemma set_sort_by_score: "set (sort_by_score rs) = set rs"
  by (simp add: sort_by_score_def)

lemma length_sort_by_score: "length (sort_by_score rs) = length rs"
  by (simp add: sort_by_score_def)

lemma find_Some_name:
  assumes "find (\<lambda>c. name c = n) cs = Some c"
  shows "c \<in> set cs" and "name c = n"
  using assms by (induction cs) (auto split: if_splits)

lemma named_in_image: "c \<in> set cs \<Longrightarrow> name c = n \<Longrightarrow> n \<in> name ` set cs"
  by (rule image_eqI [of _ _ c]) simp_all

text \<open>The verdicts that contribute a result, and the result of a verdict.\<close>

lemma rerank_loop_members:
  "r \<in> set (rerank_loop candidates ms) \<Longrightarrow>
   \<exists>m\<in>set ms. \<exists>c\<in>set candidates. matchesCriteria m \<and> name c = match_name m \<and>
     find (\<lambda>c. name c = match_name m) candidates = Some c \<and>
     r = c\<lparr>score := relevanceScore m, matchType := LlmReranked,
           llmReasoning := Some (reasoning m), extractedInfo := match_extractedInfo m\<rparr>"
proof (induction ms)
  case Nil
  then show ?case by simp
next
  case (Cons m ms)
  show ?case
  proof (cases "matchesCriteria m")
    case False
    with Cons show ?thesis by auto
  next
    case True
    show ?thesis
    proof (cases "find (\<lambda>c. name c = match_name m) candidates")
      case None
      with True Cons show ?thesis by auto
    next
      case (Some c)
      then have c: "c \<in> set candidates" "name c = match_name m"
        by (rule find_Some_name)+
      from Cons.prems True Some
      consider "r = c\<lparr>score := relevanceScore m, matchType := LlmReranked,
           llmReasoning := Some (reasoning m), extractedInfo := match_extractedInfo m\<rparr>"
        | "r \<in> set (rerank_loop candidates ms)"
        by auto
      then show ?thesis
      proof cases
        case 1
        with True c Some show ?thesis by auto
      next
        case 2
        with Cons.IH show ?thesis by auto
      qed
    qed
  qed
qed

lemma length_rerank_loop:
  "length (rerank_loop candidates ms) =
     length (filter (\<lambda>m. matchesCriteria m \<and> match_name m \<in> name ` set candidates) ms)"
proof (induction ms)
  case Nil
  show ?case by simp
next
  case (Cons m ms)
  show ?case
  proof (cases "find (\<lambda>c. name c = match_name m) candidates")
    case None
    then have "match_name m \<notin> name ` set candidates" by (simp add: find_None_names)
    with None Cons show ?thesis by simp
  next
    case (Some c)
    have "match_name m \<in> name ` set candidates"
      using find_Some_name [OF Some] by (rule named_in_image)
    with Some Cons show ?thesis by simp
  qed
qed

lemma rerank_loop_covers:
  "m \<in> set ms \<Longrightarrow> matchesCriteria m \<Longrightarrow> match_name m \<in> name ` set candidates \<Longrightarrow>
   \<exists>r\<in>set (rerank_loop candidates ms). name r = match_name m \<and> score r = relevanceScore m"
proof (induction ms)
  case Nil
  then show ?case by simp
next
  case (Cons x ms)
  show ?case
  proof (cases "m = x")
    case True
    from Cons.prems(3) obtain c where "find (\<lambda>c. name c = match_name m) candidates = Some c"
      using find_None_names [of "match_name m" candidates] by (cases "find (\<lambda>c. name c = match_name m) candidates") auto
    moreover from this have "name c = match_name m" by (rule find_Some_name(2))
    ultimately show ?thesis using True Cons.prems(2) by simp
  next
    case False
    with Cons have "\<exists>r\<in>set (rerank_loop candidates ms).
        name r = match_name m \<and> score r = relevanceScore m" by simp
    then show ?thesis by (auto split: option.splits)
  qed
qed

lemma results_rerank_Json:
  "schema_ok resp \<Longrightarrow>
   results (rerankAndFilter candidates (Json resp)) = sort_by_score (rerank_loop candidates (matches resp))"
proof (cases candidates)
  case Nil
  have "rerank_loop [] ms = []" for ms by (induction ms) simp_all
  with Nil show ?thesis by (simp add: rerankAndFilter_def sort_by_score_def)
next
  case (Cons c cs)
  assume "schema_ok resp"
  with Cons show ?thesis by (simp add: rerankAndFilter_def)
qed

text \<open>
  C3, as stated, fails for a response that cannot be read: the candidates come back
  as they were, not marked as re-ranked and in their own order.
\<close>

theorem rerank_unparseable_counterexample:
  "map (\<lambda>r. (name r, score r, matchType r))
     (results (rerankAndFilter [item ''A'' (1 / 10) Hybrid ''tester'', item ''B'' (9 / 10) Hybrid ''QA lead'']
        ParseError))
   = [(''A'', 1 / 10, Hybrid), (''B'', 9 / 10, Hybrid)]"
  by (simp add: rerankAndFilter_def parse_fallback_def item_def)

text \<open>
  C3, amended. For every candidate list and every response of the model that is read
  and passes the schema: every returned item is an input candidate (the first of its
  name, as \<^verbatim>\<open>Array.find\<close> returns it) with the score, reasoning and extracted
  information of a verdict that has
  \<open>matchesCriteria\<close> and names it, and with the match type \<open>llm-reranked\<close>; so every
  returned name is the name of an input candidate. There are exactly as many returned
  items as verdicts with \<open>matchesCriteria\<close> that name an input candidate, and each of
  these verdicts has a returned item with its name and score; a verdict that names
  no candidate gives none. The scores are in [0,1] and the list is in descending
  order of score. (For a response that is not read, or fails the schema, the input
  candidates are returned unchanged.)
\<close>

theorem rerankAndFilter_parsed:
  assumes "schema_ok resp"
  shows "name ` set (results (rerankAndFilter candidates (Json resp))) \<subseteq> name ` set candidates
    \<and> (\<forall>r\<in>set (results (rerankAndFilter candidates (Json resp))).
          matchType r = LlmReranked \<and> 0 \<le> score r \<and> score r \<le> 1 \<and>
          (\<exists>m\<in>set (matches resp). \<exists>c\<in>set candidates.
             matchesCriteria m \<and> name c = match_name m \<and>
             find (\<lambda>c. name c = match_name m) candidates = Some c \<and>
             r = c\<lparr>score := relevanceScore m, matchType := LlmReranked,
                   llmReasoning := Some (reasoning m),
                   extractedInfo := match_extractedInfo m\<rparr>))
    \<and> length (results (rerankAndFilter candidates (Json resp))) =
        length (filter (\<lambda>m. matchesCriteria m \<and> match_name m \<in> name ` set candidates)
                  (matches resp))
    \<and> (\<forall>m\<in>set (matches resp). matchesCriteria m \<and> match_name m \<in> name ` set candidates \<longrightarrow>
          (\<exists>r\<in>set (results (rerankAndFilter candidates (Json resp))).
             name r = match_name m \<and> score r = relevanceScore m))
    \<and> descending (results (rerankAndFilter candidates (Json resp)))"
proof -
  let ?rs = "results (rerankAndFilter candidates (Json resp))"
  have rs: "?rs = sort_by_score (rerank_loop candidates (matches resp))"
    using assms by (rule results_rerank_Json)
  have range: "0 \<le> relevanceScore m \<and> relevanceScore m \<le> 1" if "m \<in> set (matches resp)" for m
    using assms that by (simp add: schema_ok_def list_all_iff)
  have each: "matchType r = LlmReranked \<and> 0 \<le> score r \<and> score r \<le> 1 \<and>
      (\<exists>m\<in>set (matches resp). \<exists>c\<in>set candidates.
         matchesCriteria m \<and> name c = match_name m \<and>
         find (\<lambda>c. name c = match_name m) candidates = Some c \<and>
         r = c\<lparr>score := relevanceScore m, matchType := LlmReranked,
               llmReasoning := Some (reasoning m),
               extractedInfo := match_extractedInfo m\<rparr>)"
    if "r \<in> set ?rs" for r
  proof -
    from that have "r \<in> set (rerank_loop candidates (matches resp))"
      by (simp add: rs set_sort_by_score)
    then obtain m c where mc: "m \<in> set (matches resp)" "c \<in> set candidates"
      "matchesCriteria m" "name c = match_name m"
      "r = c\<lparr>score := relevanceScore m, matchType := LlmReranked,
            llmReasoning := Some (reasoning m), extractedInfo := match_extractedInfo m\<rparr>"
      "find (\<lambda>c. name c = match_name m) candidates = Some c"
      using rerank_loop_members by blast
    from mc(5) have "matchType r = LlmReranked" "score r = relevanceScore m" by simp_all
    with range [OF mc(1)] mc show ?thesis by auto
  qed
  have names: "name ` set ?rs \<subseteq> name ` set candidates"
  proof
    fix n assume "n \<in> name ` set ?rs"
    then obtain r where r: "r \<in> set ?rs" "n = name r" by blast
    from each [OF r(1)] obtain m c where "m \<in> set (matches resp)" and c: "c \<in> set candidates"
      and "r = c\<lparr>score := relevanceScore m, matchType := LlmReranked,
            llmReasoning := Some (reasoning m), extractedInfo := match_extractedInfo m\<rparr>"
      by (elim conjE bexE)
    then have "name c = n" using r(2) by simp
    with c show "n \<in> name ` set candidates" by (rule named_in_image)
  qed
  have count: "length ?rs =
      length (filter (\<lambda>m. matchesCriteria m \<and> match_name m \<in> name ` set candidates) (matches resp))"
    by (simp add: rs length_sort_by_score length_rerank_loop)
  have covers: "\<exists>r\<in>set ?rs. name r = match_name m \<and> score r = relevanceScore m"
    if "m \<in> set (matches resp)" "matchesCriteria m" "match_name m \<in> name ` set candidates" for m
    using rerank_loop_covers [OF that] by (simp add: rs set_sort_by_score)
  have desc: "descending ?rs"
    by (simp add: rs descending_sort_by_score)
  from names each count covers desc show ?thesis by blast
qed

theorem rerankAndFilter_parsed_witness:
  "schema_ok \<lparr>matches = [verdict ''A'' (9 / 10) True, verdict ''B'' (2 / 10) False,
                          verdict ''C'' (7 / 10) True, verdict ''Z'' (8 / 10) True],
              summary = ''2 of 3''\<rparr>
   \<and> length (results (rerankAndFilter
        [item ''A'' (5 / 10) Hybrid ''a'', item ''B'' (4 / 10) Hybrid ''b'',
         item ''C'' (3 / 10) Hybrid ''c'', item ''A'' (1 / 10) Hybrid ''another A'']
        (Json \<lparr>matches = [verdict ''A'' (9 / 10) True, verdict ''B'' (2 / 10) False,
                           verdict ''C'' (7 / 10) True, verdict ''Z'' (8 / 10) True],
               summary = ''2 of 3''\<rparr>))) = 2
   \<and> descending (results (rerankAndFilter
        [item ''A'' (5 / 10) Hybrid ''a'', item ''B'' (4 / 10) Hybrid ''b'',
         item ''C'' (3 / 10) Hybrid ''c'', item ''A'' (1 / 10) Hybrid ''another A'']
        (Json \<lparr>matches = [verdict ''A'' (9 / 10) True, verdict ''B'' (2 / 10) False,
                           verdict ''C'' (7 / 10) True, verdict ''Z'' (8 / 10) True],
               summary = ''2 of 3''\<rparr>)))
   \<and> set (map content (filter (\<lambda>r. name r = ''A'') (results (rerankAndFilter
        [item ''A'' (5 / 10) Hybrid ''a'', item ''B'' (4 / 10) Hybrid ''b'',
         item ''C'' (3 / 10) Hybrid ''c'', item ''A'' (1 / 10) Hybrid ''another A'']
        (Json \<lparr>matches = [verdict ''A'' (9 / 10) True, verdict ''B'' (2 / 10) False,
                           verdict ''C'' (7 / 10) True, verdict ''Z'' (8 / 10) True],
               summary = ''2 of 3''\<rparr>))))) \<subseteq> {''a''}"
proof -
  let ?resp = "\<lparr>matches = [verdict ''A'' (9 / 10) True, verdict ''B'' (2 / 10) False,
                          verdict ''C'' (7 / 10) True, verdict ''Z'' (8 / 10) True],
              summary = ''2 of 3''\<rparr>"
  let ?cands = "[item ''A'' (5 / 10) Hybrid ''a'', item ''B'' (4 / 10) Hybrid ''b'',
                 item ''C'' (3 / 10) Hybrid ''c'', item ''A'' (1 / 10) Hybrid ''another A'']"
  let ?rs = "results (rerankAndFilter ?cands (Json ?resp))"
  have ok: "schema_ok ?resp" by (simp add: schema_ok_def verdict_def)
  note t = rerankAndFilter_parsed [OF ok, of ?cands]
  from t
  have "length ?rs =
      length (filter (\<lambda>m. matchesCriteria m \<and> match_name m \<in> name ` set ?cands) (matches ?resp))"
    and d: "descending ?rs"
    by blast+
  then have l: "length ?rs = 2"
    by (simp add: verdict_def item_def)
  from t have each: "\<forall>r\<in>set ?rs. \<exists>m\<in>set (matches ?resp). \<exists>c\<in>set ?cands.
      find (\<lambda>c. name c = match_name m) ?cands = Some c \<and>
      r = c\<lparr>score := relevanceScore m, matchType := LlmReranked,
            llmReasoning := Some (reasoning m), extractedInfo := match_extractedInfo m\<rparr>"
    by blast
  have first: "set (map content (filter (\<lambda>r. name r = ''A'') ?rs)) \<subseteq> {''a''}"
  proof
    fix x assume "x \<in> set (map content (filter (\<lambda>r. name r = ''A'') ?rs))"
    then obtain r where r: "r \<in> set ?rs" "name r = ''A''" "x = content r" by auto
    from each r(1) obtain m c where m: "m \<in> set (matches ?resp)"
      and f: "find (\<lambda>c. name c = match_name m) ?cands = Some c"
      and rc: "r = c\<lparr>score := relevanceScore m, matchType := LlmReranked,
            llmReasoning := Some (reasoning m), extractedInfo := match_extractedInfo m\<rparr>"
      by blast
    from rc have same: "name r = name c" "content r = content c" by simp_all
    from find_Some_name(2) [OF f] same(1) r(2) have "match_name m = ''A''" by simp
    with f have "find (\<lambda>c. name c = ''A'') ?cands = Some c" by simp
    then have "c = item ''A'' (5 / 10) Hybrid ''a''" by (simp add: item_def)
    with same(2) r(3) show "x \<in> {''a''}" by (simp add: item_def)
  qed
  from ok l d first show ?thesis by blast
qed

text \<open>
  C4. When the chat model throws, or its answer cannot be read, or (for the
  re-ranker) a relevance score is outside the schema's range, the re-ranker and the
  conversational filter return the list they were given, unchanged; when the list
  is not empty (so that the model was called at all) the summary is the fixed
  sentence of the fallback, with the message of the error when there is one.
\<close>

theorem llm_failure_returns_input:
  "results (rerankAndFilter candidates (InvokeError e)) = candidates
   \<and> results (rerankAndFilter candidates ParseError) = candidates
   \<and> (\<not> schema_ok resp \<longrightarrow> results (rerankAndFilter candidates (Json resp)) = candidates)
   \<and> fst (filterResults cachedResults (InvokeError e)) = cachedResults
   \<and> fst (filterResults cachedResults ParseError) = cachedResults
   \<and> (candidates \<noteq> [] \<longrightarrow>
        summary (analysis (rerankAndFilter candidates (InvokeError e))) =
          ''Error during LLM analysis: '' @ (case e of Some msg \<Rightarrow> msg | None \<Rightarrow> ''Unknown error'')
          @ ''. Returning unfiltered results.''
        \<and> summary (analysis (rerankAndFilter candidates ParseError)) =
          ''Failed to parse LLM response. Returning original vector search results without filtering.''
        \<and> (\<not> schema_ok resp \<longrightarrow> summary (analysis (rerankAndFilter candidates (Json resp))) =
          ''Failed to parse LLM response. Returning original vector search results without filtering.''))
   \<and> (cachedResults \<noteq> [] \<longrightarrow>
        snd (filterResults cachedResults (InvokeError e)) =
          ''Error during filtering: '' @ (case e of Some msg \<Rightarrow> msg | None \<Rightarrow> ''Unknown error'')
        \<and> snd (filterResults cachedResults ParseError) =
          ''Failed to parse filter response. Returning all cached results.'')"
  by (simp add: rerankAndFilter_def parse_fallback_def filterResults_def)

theorem llm_failure_returns_input_witness:
  "[item ''A'' (1 / 2) Hybrid ''a'', item ''B'' (1 / 4) Hybrid ''b''] \<noteq> []
   \<and> \<not> schema_ok \<lparr>matches = [verdict ''A'' 2 True], summary = ''1 of 2''\<rparr>
   \<and> [structured (item ''A'' (1 / 2) Hybrid ''a'')] \<noteq> []
   \<and> results (rerankAndFilter [item ''A'' (1 / 2) Hybrid ''a'', item ''B'' (1 / 4) Hybrid ''b'']
        (Json \<lparr>matches = [verdict ''A'' 2 True], summary = ''1 of 2''\<rparr>))
      = [item ''A'' (1 / 2) Hybrid ''a'', item ''B'' (1 / 4) Hybrid ''b'']
   \<and> summary (analysis (rerankAndFilter [item ''A'' (1 / 2) Hybrid ''a'', item ''B'' (1 / 4) Hybrid ''b'']
        (InvokeError (Some ''timeout''))))
      = ''Error during LLM analysis: timeout. Returning unfiltered results.''
   \<and> filterResults [structured (item ''A'' (1 / 2) Hybrid ''a'')] ParseError
      = ([structured (item ''A'' (1 / 2) Hybrid ''a'')],
         ''Failed to parse filter response. Returning all cached results.'')"
proof -
  let ?cands = "[item ''A'' (1 / 2) Hybrid ''a'', item ''B'' (1 / 4) Hybrid ''b'']"
  let ?resp = "\<lparr>matches = [verdict ''A'' 2 True], summary = ''1 of 2''\<rparr>"
  let ?cached = "[structured (item ''A'' (1 / 2) Hybrid ''a'')]"
  have ne: "?cands \<noteq> []" and bad: "\<not> schema_ok ?resp" and nc: "?cached \<noteq> []"
    by (simp_all add: schema_ok_def verdict_def)
  note f = llm_failure_returns_input [of ?cands "Some ''timeout''" ?resp ?cached]
  from f bad have r: "results (rerankAndFilter ?cands (Json ?resp)) = ?cands" by blast
  from f ne have s: "summary (analysis (rerankAndFilter ?cands (InvokeError (Some ''timeout''))))
      = ''Error during LLM analysis: '' @ (case Some ''timeout'' of Some msg \<Rightarrow> msg | None \<Rightarrow> ''Unknown error'')
        @ ''. Returning unfiltered results.''" by blast
  from f nc have "fst (filterResults ?cached ParseError) = ?cached"
    and "snd (filterResults ?cached ParseError)
      = ''Failed to parse filter response. Returning all cached results.''" by blast+
  then have p: "filterResults ?cached ParseError
      = (?cached, ''Failed to parse filter response. Returning all cached results.'')"
    by (simp add: prod_eq_iff)
  from s have s': "summary (analysis (rerankAndFilter ?cands (InvokeError (Some ''timeout''))))
      = ''Error during LLM analysis: timeout. Returning unfiltered results.''" by simp
  from ne bad nc r s' p show ?thesis by blast
qed

lemma find_decision_distinct:
  "distinct (map fr_name ds) \<Longrightarrow>
   (\<exists>d. find (\<lambda>fr. fr_name fr = n) ds = Some d \<and> fr_matches d)
     \<longleftrightarrow> (\<exists>fr\<in>set ds. fr_name fr = n \<and> fr_matches fr)"
proof (induction ds)
  case Nil
  show ?case by simp
next
  case (Cons d ds)
  then have nd: "fr_name d \<notin> fr_name ` set ds" and IH: "(\<exists>d. find (\<lambda>fr. fr_name fr = n) ds = Some d \<and> fr_matches d)
     \<longleftrightarrow> (\<exists>fr\<in>set ds. fr_name fr = n \<and> fr_matches fr)" by simp_all
  show ?case
  proof (cases "fr_name d = n")
    case True
    with nd have "\<not> (\<exists>fr\<in>set ds. fr_name fr = n \<and> fr_matches fr)"
      by (metis image_eqI)
    with True show ?thesis by auto
  next
    case False
    with IH show ?thesis by auto
  qed
qed

text \<open>
  C6, as stated, fails: when the model gives two decisions for one name, the first
  one counts. Here a decision with the name and \<open>matches = true\<close> exists, and the
  result is dropped.
\<close>

theorem filterResults_first_decision_counterexample:
  "fst (filterResults [structured (item ''A'' (1 / 2) Hybrid ''a'')]
          (Json \<lparr>filteredResults = [decision ''A'' False, decision ''A'' True],
                 filter_summary = ''1 of 1''\<rparr>)) = []
   \<and> list_ex (\<lambda>fr. fr_name fr = name (structured (item ''A'' (1 / 2) Hybrid ''a'')) \<and> fr_matches fr)
        [decision ''A'' False, decision ''A'' True]"
  by (simp add: filterResults_def filter_decision_def decision_def structured_def item_def)

text \<open>
  C6, amended. For a response that was read, the returned list is the cached list
  restricted to the results whose first decision of the same name has
  \<open>matches = true\<close>, in the order of the cached list; when no two decisions have
  the same name, these are the results for which a decision of the same name with
  \<open>matches = true\<close> exists.
\<close>

theorem filterResults_parsed:
  "fst (filterResults cachedResults (Json resp)) =
     filter (\<lambda>r. \<exists>d. find (\<lambda>fr. fr_name fr = name r) (filteredResults resp) = Some d \<and> fr_matches d)
       cachedResults
   \<and> (distinct (map fr_name (filteredResults resp)) \<longrightarrow>
        fst (filterResults cachedResults (Json resp)) =
          filter (\<lambda>r. \<exists>fr\<in>set (filteredResults resp). fr_name fr = name r \<and> fr_matches fr)
            cachedResults)"
proof -
  have dec: "filter_decision resp =
      (\<lambda>r. \<exists>d. find (\<lambda>fr. fr_name fr = name r) (filteredResults resp) = Some d \<and> fr_matches d)"
    by (rule ext) (simp add: filter_decision_def split: option.splits)
  have first: "fst (filterResults cachedResults (Json resp)) =
     filter (\<lambda>r. \<exists>d. find (\<lambda>fr. fr_name fr = name r) (filteredResults resp) = Some d \<and> fr_matches d)
       cachedResults"
    by (cases cachedResults) (simp_all add: filterResults_def dec)
  moreover have "fst (filterResults cachedResults (Json resp)) =
          filter (\<lambda>r. \<exists>fr\<in>set (filteredResults resp). fr_name fr = name r \<and> fr_matches fr)
            cachedResults"
    if "distinct (map fr_name (filteredResults resp))"
    by (simp only: first find_decision_distinct [OF that])
  ultimately show ?thesis by blast
qed

theorem filterResults_parsed_witness:
  "distinct (map fr_name [decision ''B'' True, decision ''A'' False, decision ''C'' True])
   \<and> fst (filterResults
        [structured (item ''A'' (3 / 4) LlmReranked ''a''), structured (item ''B'' (1 / 2) LlmReranked ''b''),
         structured (item ''C'' (1 / 4) LlmReranked ''c'')]
        (Json \<lparr>filteredResults = [decision ''B'' True, decision ''A'' False, decision ''C'' True],
               filter_summary = ''2 of 3''\<rparr>))
     = [structured (item ''B'' (1 / 2) LlmReranked ''b''), structured (item ''C'' (1 / 4) LlmReranked ''c'')]"
proof -
  let ?ds = "[decision ''B'' True, decision ''A'' False, decision ''C'' True]"
  let ?resp = "\<lparr>filteredResults = ?ds, filter_summary = ''2 of 3''\<rparr>"
  let ?cached = "[structured (item ''A'' (3 / 4) LlmReranked ''a''),
                  structured (item ''B'' (1 / 2) LlmReranked ''b''),
                  structured (item ''C'' (1 / 4) LlmReranked ''c'')]"
  have d: "distinct (map fr_name ?ds)" by (simp add: decision_def)
  then have d': "distinct (map fr_name (filteredResults ?resp))" by simp
  from filterResults_parsed [of ?cached ?resp] d'
  have "fst (filterResults ?cached (Json ?resp)) =
      filter (\<lambda>r. \<exists>fr\<in>set (filteredResults ?resp). fr_name fr = name r \<and> fr_matches fr) ?cached"
    by blast
  then have "fst (filterResults ?cached (Json ?resp))
      = [structured (item ''B'' (1 / 2) LlmReranked ''b''), structured (item ''C'' (1 / 4) LlmReranked ''c'')]"
    by (simp add: decision_def structured_def item_def)
  with d show ?thesis by blast
qed

section \<open>Properties of the keyword engine\<close>


lemma totalScore_nonneg: "0 \<le> totalScore re doc"
  by (simp add: totalScore_def Let_def)


lemma score_keyword_item:
  "score (keyword_item re keywords doc) = min (totalScore re doc / 30) 1"
  by (simp add: keyword_item_def Let_def)


text \<open>
  C9: the code does not compute the formula of the specification. For a document
  whose text contains the token twice (and no other field contains it) the engine
  counts one match and scores 1/30, where the formula gives 2/30.
\<close>

theorem keyword_count_divergence:
  "(case keyword_search js_regex
           (\<lambda>source. Inr [resume ''Java and more java'' ''Asha Rao'' ''asha@x.org'' ''Python'' ''Developer''])
           ''java'' 1 of
      Inr rs \<Rightarrow> map score rs | Inl e \<Rightarrow> []) = [1 / 30]
   \<and> spec_countIn (tokenize ''java'') ''Java and more java'' = 2
   \<and> spec_score (tokenize ''java'')
        (resume ''Java and more java'' ''Asha Rao'' ''asha@x.org'' ''Python'' ''Developer'') = 2 / 30"
  by code_simp




section \<open>Properties of the retrieval pipeline\<close>

lemma descending_take: "descending rs \<Longrightarrow> descending (take k rs)"
  by (simp add: descending_def sorted_wrt_take)

lemma scores_in_unit_take: "scores_in_unit rs \<Longrightarrow> scores_in_unit (take k rs)"
  by (auto simp: scores_in_unit_def list_all_iff dest: in_set_takeD)

lemma scores_in_unit_sort: "scores_in_unit (sort_by_score rs) = scores_in_unit rs"
  by (simp add: scores_in_unit_def list_all_iff set_sort_by_score)

lemma score_attach_analysis: "score (attach_analysis a r) = score r"
  by (simp add: attach_analysis_def split: option.splits)

lemma descending_attach: "descending (map (attach_analysis a) rs) = descending rs"
  by (simp add: descending_def sorted_wrt_map score_attach_analysis)

lemma scores_in_unit_attach: "scores_in_unit (map (attach_analysis a) rs) = scores_in_unit rs"
  by (simp add: scores_in_unit_def list_all_iff score_attach_analysis)

subsection \<open>The keyword engine\<close>

lemma score_keyword_item_unit:
  "0 \<le> score (keyword_item re keywords doc) \<and> score (keyword_item re keywords doc) \<le> 1"
  using totalScore_nonneg [of re doc] by (simp add: score_keyword_item)

lemma keyword_search_shape:
  assumes "keyword_search new_RegExp collection_find query topK = Inr rs"
  shows "\<exists>re found. new_RegExp (join ''|'' (tokenize query)) = Inr re
      \<and> collection_find (join ''|'' (tokenize query)) = Inr found
      \<and> rs = take topK (sort_by_score
          (map (keyword_item re (tokenize query)) (cursor_limit (topK * 2) found)))"
  using assms by (auto simp: keyword_search_def Let_def split: sum.splits)

lemma keyword_search_ranked:
  assumes "keyword_search new_RegExp collection_find query topK = Inr rs"
  shows "descending rs" and "scores_in_unit rs"
proof -
  from keyword_search_shape [OF assms] obtain re found where
    rs: "rs = take topK (sort_by_score
          (map (keyword_item re (tokenize query)) (cursor_limit (topK * 2) found)))"
    by blast
  show "descending rs"
    unfolding rs by (rule descending_take, rule descending_sort_by_score)
  have "scores_in_unit (map (keyword_item re (tokenize query)) (cursor_limit (topK * 2) found))"
    by (simp add: scores_in_unit_def list_all_iff score_keyword_item_unit)
  then show "scores_in_unit rs"
    unfolding rs by (simp add: scores_in_unit_take scores_in_unit_sort)
qed

lemma distinct_map_insort_key:
  "distinct (map g (insort_key f x xs)) \<longleftrightarrow> g x \<notin> g ` set xs \<and> distinct (map g xs)"
  by (induction xs) (auto simp: set_insort_key)

lemma distinct_map_sort_key: "distinct (map g (sort_key f xs)) \<longleftrightarrow> distinct (map g xs)"
  by (induction xs) (simp_all add: distinct_map_insort_key)

lemma distinct_map_take: "distinct (map g xs) \<Longrightarrow> distinct (map g (take n xs))"
  by (simp add: take_map [symmetric])

lemma name_keyword_item: "name (keyword_item re keywords doc) = js_or (doc_name doc) ''Unknown''"
  by (simp add: keyword_item_def Let_def)

lemma keyword_search_distinct_names:
  assumes "keyword_search new_RegExp collection_find query topK = Inr rs"
    and "\<forall>found. collection_find (join ''|'' (tokenize query)) = Inr found \<longrightarrow>
           distinct (map (\<lambda>d. js_or (doc_name d) ''Unknown'') found)"
  shows "distinct (map name rs)"
proof -
  from keyword_search_shape [OF assms(1)] obtain re found where
    f: "collection_find (join ''|'' (tokenize query)) = Inr found" and
    rs: "rs = take topK (sort_by_score
          (map (keyword_item re (tokenize query)) (cursor_limit (topK * 2) found)))"
    by blast
  from assms(2) f have "distinct (map (\<lambda>d. js_or (doc_name d) ''Unknown'') found)" by blast
  then have "distinct (map (\<lambda>d. js_or (doc_name d) ''Unknown'') (cursor_limit (topK * 2) found))"
    by (simp add: cursor_limit_def distinct_map_take)
  then have "distinct (map name (map (keyword_item re (tokenize query))
      (cursor_limit (topK * 2) found)))"
    by (simp add: o_def name_keyword_item)
  then show ?thesis
    unfolding rs sort_by_score_def
    by (intro distinct_map_take) (simp only: distinct_map_sort_key)
qed

subsection \<open>The vector engine\<close>

lemma normalizeVectorScore_unit: "0 \<le> normalizeVectorScore s \<and> normalizeVectorScore s \<le> 1"
  by (simp add: normalizeVectorScore_def)

lemma normalizeVectorScore_mono: "a \<le> b \<Longrightarrow> normalizeVectorScore a \<le> normalizeVectorScore b"
  by (auto simp: normalizeVectorScore_def)

lemma score_vector_item: "score (vector_item p) = normalizeVectorScore (snd p)"
  by (cases p) (simp add: vector_item_def)

lemma vector_search_ranked:
  assumes "vector_search searchWithScores query topK = Inr rs"
  shows "scores_in_unit rs"
    and "(\<forall>n found. searchWithScores query n = Inr found \<longrightarrow>
            sorted_wrt (\<lambda>a b. snd a \<ge> snd b) found) \<Longrightarrow> descending rs"
proof -
  from assms obtain found where f: "searchWithScores query topK = Inr found"
    and rs: "rs = map vector_item found"
    by (auto simp: vector_search_def split: sum.splits)
  show "scores_in_unit rs"
    by (simp add: rs scores_in_unit_def list_all_iff score_vector_item normalizeVectorScore_unit)
  assume "\<forall>n found. searchWithScores query n = Inr found \<longrightarrow>
            sorted_wrt (\<lambda>a b. snd a \<ge> snd b) found"
  with f have "sorted_wrt (\<lambda>a b. snd a \<ge> snd b) found" by blast
  then have "sorted_wrt (\<lambda>a b. normalizeVectorScore (snd a) \<ge> normalizeVectorScore (snd b)) found"
    by (rule sorted_wrt_mono_rel [rotated]) (simp add: normalizeVectorScore_mono)
  then show "descending rs"
    by (simp add: rs descending_def sorted_wrt_map score_vector_item)
qed

subsection \<open>The hybrid engine\<close>

lemma set_map_set: "set (map_set k v m) \<subseteq> insert (k, v) (set m)"
proof (induction m)
  case Nil
  show ?case by simp
next
  case (Cons p m)
  then show ?case by (cases p) auto
qed

lemma fold_vector_bounded:
  assumes "scores_in_unit vs" and "0 \<le> vectorWeight config"
    and "\<forall>p\<in>set m. 0 \<le> score (snd p) \<and> score (snd p) \<le> vectorWeight config"
  shows "\<forall>p\<in>set (fold (merge_vector config) vs m).
           0 \<le> score (snd p) \<and> score (snd p) \<le> vectorWeight config"
  using assms
proof (induction vs arbitrary: m)
  case Nil
  then show ?case by simp
next
  case (Cons v vs)
  from Cons.prems(1) have v: "0 \<le> score v" "score v \<le> 1" and vs: "scores_in_unit vs"
    by (simp_all add: scores_in_unit_def)
  have "\<forall>p\<in>set (merge_vector config v m).
      0 \<le> score (snd p) \<and> score (snd p) \<le> vectorWeight config"
  proof
    fix p assume "p \<in> set (merge_vector config v m)"
    then have "p = (name v, v\<lparr>score := score v * vectorWeight config, matchType := Hybrid\<rparr>)
        \<or> p \<in> set m"
      using set_map_set [of "name v" _ m] by (auto simp: merge_vector_def)
    then show "0 \<le> score (snd p) \<and> score (snd p) \<le> vectorWeight config"
    proof
      assume "p = (name v, v\<lparr>score := score v * vectorWeight config, matchType := Hybrid\<rparr>)"
      with v Cons.prems(2) show ?thesis
        by (simp add: mult_left_le_one_le)
    next
      assume "p \<in> set m"
      with Cons.prems(3) show ?thesis by blast
    qed
  qed
  from Cons.IH [OF vs Cons.prems(2) this] show ?case by simp
qed

lemma map_of_keyed_member:
  assumes "distinct (map fst m)" and "keyed_by_name m" and "e \<in> set (map_values m)"
  shows "map_of m (name e) = Some e"
proof -
  from assms(3) obtain k where k: "(k, e) \<in> set m"
    by (auto simp: map_values_def)
  with assms(2) have "name e = k"
    by (auto simp: keyed_by_name_def list_all_iff)
  with assms(1) k show ?thesis by simp
qed

lemma mergeResults_unit:
  assumes "scores_in_unit vs" and "scores_in_unit ks" and "distinct (map name ks)"
    and w: "0 \<le> vectorWeight config" "0 \<le> keywordWeight config"
      "vectorWeight config + keywordWeight config \<le> 1"
  shows "scores_in_unit (mergeResults config vs ks)"
proof -
  let ?V = "fold (merge_vector config) vs []"
  let ?K = "fold (merge_keyword config) ks ?V"
  have M0: "\<forall>p\<in>set ?V. 0 \<le> score (snd p) \<and> score (snd p) \<le> vectorWeight config"
    by (rule fold_vector_bounded [OF assms(1) w(1)]) simp
  have dM: "distinct (map fst ?K)"
    by (rule distinct_fold_keyword, rule distinct_fold_vector) simp
  have "0 \<le> score e \<and> score e \<le> 1" if "e \<in> set (map_values ?K)" for e
  proof -
    from map_of_keyed_member [OF dM keyed_merged that]
    have look: "map_of ?K (name e) = Some e" .
    show ?thesis
    proof (cases "find (\<lambda>k. name k = name e) ks")
      case None
      with look have "map_of ?V (name e) = Some e"
        by (simp add: lookup_fold_keyword [OF assms(3)])
      then have "(name e, e) \<in> set ?V" by (rule map_of_SomeD)
      with M0 have "0 \<le> score e \<and> score e \<le> vectorWeight config" by force
      with w show ?thesis by linarith
    next
      case (Some k)
      then have "k \<in> set ks" by (rule find_Some_mem)
      with assms(2) have k: "0 \<le> score k" "score k \<le> 1"
        by (simp_all add: scores_in_unit_def list_all_iff)
      then have kw: "0 \<le> score k * keywordWeight config"
        "score k * keywordWeight config \<le> keywordWeight config"
        using w(2) by (simp_all add: mult_left_le_one_le)
      from look Some have e: "e = keyword_onto config (map_of ?V (name e)) k"
        by (simp add: lookup_fold_keyword [OF assms(3)])
      show ?thesis
      proof (cases "map_of ?V (name e)")
        case None
        from e have "e = keyword_onto config None k" unfolding None .
        then have "score e = score (keyword_onto config None k)" by (rule arg_cong)
        then have "score e = score k * keywordWeight config"
          by (simp add: keyword_onto_def weighted_def)
        with kw w show ?thesis by linarith
      next
        case (Some e0)
        then have "(name e, e0) \<in> set ?V" by (rule map_of_SomeD)
        with M0 have e0: "0 \<le> score e0 \<and> score e0 \<le> vectorWeight config" by force
        from e have "e = keyword_onto config (Some e0) k" unfolding Some .
        then have "score e = score (keyword_onto config (Some e0) k)" by (rule arg_cong)
        then have "score e = score e0 + score k * keywordWeight config"
          by (simp add: keyword_onto_def)
        with kw e0 w show ?thesis by linarith
      qed
    qed
  qed
  then show ?thesis
    by (simp add: mergeResults_def scores_in_unit_def list_all_iff)
qed

lemma hybrid_search_ranked:
  assumes "hybrid_search config vEngine kEngine query topK = Inr rs"
  shows "descending rs"
    and "\<lbrakk>\<And>n vs. vEngine query n = Inr vs \<Longrightarrow> scores_in_unit vs;
          \<And>n ks. kEngine query n = Inr ks \<Longrightarrow> scores_in_unit ks \<and> distinct (map name ks);
          0 \<le> vectorWeight config; 0 \<le> keywordWeight config;
          vectorWeight config + keywordWeight config \<le> 1\<rbrakk>
         \<Longrightarrow> scores_in_unit rs"
proof -
  from assms obtain vs ks where v: "vEngine query (topK * 3) = Inr vs"
    and k: "kEngine query (topK * 3) = Inr ks"
    and rs: "rs = take topK (sort_by_score (mergeResults config vs ks))"
    by (auto simp: hybrid_search_def Let_def split: sum.splits)
  show "descending rs"
    unfolding rs by (rule descending_take, rule descending_sort_by_score)
  assume ve: "\<And>n vs. vEngine query n = Inr vs \<Longrightarrow> scores_in_unit vs"
    and ke: "\<And>n ks. kEngine query n = Inr ks \<Longrightarrow> scores_in_unit ks \<and> distinct (map name ks)"
    and w: "0 \<le> vectorWeight config" "0 \<le> keywordWeight config"
      "vectorWeight config + keywordWeight config \<le> 1"
  from ve [OF v] ke [OF k] w have "scores_in_unit (mergeResults config vs ks)"
    by (intro mergeResults_unit) simp_all
  then show "scores_in_unit rs"
    unfolding rs by (simp add: scores_in_unit_take scores_in_unit_sort)
qed

subsection \<open>The re-ranker inside the pipeline\<close>

lemma rerank_loop_unit:
  "schema_ok resp \<Longrightarrow> scores_in_unit (rerank_loop candidates (matches resp))"
proof -
  assume ok: "schema_ok resp"
  have "0 \<le> score r \<and> score r \<le> 1" if "r \<in> set (rerank_loop candidates (matches resp))" for r
  proof -
    from rerank_loop_members [OF that] obtain m c where "m \<in> set (matches resp)"
      and "r = c\<lparr>score := relevanceScore m, matchType := LlmReranked,
            llmReasoning := Some (reasoning m), extractedInfo := match_extractedInfo m\<rparr>"
      by blast
    with ok show ?thesis by (simp add: schema_ok_def list_all_iff)
  qed
  then show ?thesis by (simp add: scores_in_unit_def list_all_iff)
qed

lemma results_rerankAndFilter_cases:
  "results (rerankAndFilter found outcome) = found
   \<or> (\<exists>resp. schema_ok resp \<and>
         results (rerankAndFilter found outcome) = sort_by_score (rerank_loop found (matches resp)))"
proof (cases "length found = 0")
  case True
  then show ?thesis by (simp add: rerankAndFilter_def)
next
  case False
  show ?thesis
  proof (cases outcome)
    case (InvokeError e)
    with False show ?thesis by (simp add: rerankAndFilter_def)
  next
    case ParseError
    with False show ?thesis by (simp add: rerankAndFilter_def parse_fallback_def)
  next
    case (Json resp)
    show ?thesis
    proof (cases "schema_ok resp")
      case True
      with False Json have "results (rerankAndFilter found outcome)
          = sort_by_score (rerank_loop found (matches resp))"
        by (simp add: rerankAndFilter_def)
      with True show ?thesis by blast
    next
      case no: False
      with False Json show ?thesis by (simp add: rerankAndFilter_def parse_fallback_def)
    qed
  qed
qed

lemma rerankAndFilter_ranked:
  shows "descending found \<Longrightarrow> descending (results (rerankAndFilter found outcome))"
    and "scores_in_unit found \<Longrightarrow> scores_in_unit (results (rerankAndFilter found outcome))"
proof -
  note c = results_rerankAndFilter_cases [of found outcome]
  show "descending (results (rerankAndFilter found outcome))" if "descending found"
    using c
  proof
    assume "results (rerankAndFilter found outcome) = found"
    with that show ?thesis by simp
  next
    assume "\<exists>resp. schema_ok resp \<and>
         results (rerankAndFilter found outcome) = sort_by_score (rerank_loop found (matches resp))"
    then obtain resp where "schema_ok resp" and "results (rerankAndFilter found outcome)
        = sort_by_score (rerank_loop found (matches resp))" by blast
    then show ?thesis by (simp only: descending_sort_by_score)
  qed
  show "scores_in_unit (results (rerankAndFilter found outcome))" if "scores_in_unit found"
    using c
  proof
    assume "results (rerankAndFilter found outcome) = found"
    with that show ?thesis by simp
  next
    assume "\<exists>resp. schema_ok resp \<and>
         results (rerankAndFilter found outcome) = sort_by_score (rerank_loop found (matches resp))"
    then obtain resp where ok: "schema_ok resp" and "results (rerankAndFilter found outcome)
        = sort_by_score (rerank_loop found (matches resp))" by blast
    then show ?thesis by (simp only: scores_in_unit_sort rerank_loop_unit [OF ok])
  qed
qed

lemma pipeline_search_shape:
  assumes "pipeline_search p query stype topK = Inr rs"
  shows "\<exists>found. (case stype of
                     SearchKeyword \<Rightarrow> keywordEngine p query
                   | SearchVector \<Rightarrow> vectorEngine p query
                   | SearchHybrid \<Rightarrow> hybridEngine p query)
                  (if enabled (llmRerankConfig p) then retrievalTopK (llmRerankConfig p) else topK)
                  = Inr found
      \<and> length rs \<le> topK
      \<and> (descending found \<longrightarrow> descending rs)
      \<and> (scores_in_unit found \<longrightarrow> scores_in_unit rs)"
proof -
  let ?n = "if enabled (llmRerankConfig p) then retrievalTopK (llmRerankConfig p) else topK"
  let ?stage1 = "(case stype of
                     SearchKeyword \<Rightarrow> keywordEngine p query
                   | SearchVector \<Rightarrow> vectorEngine p query
                   | SearchHybrid \<Rightarrow> hybridEngine p query) ?n"
  have unfold: "pipeline_search p query stype topK =
      (case ?stage1 of
         Inl e \<Rightarrow> Inl e
       | Inr found \<Rightarrow>
           (case (if enabled (llmRerankConfig p) \<and> length found > 0 then llmReranker p else None) of
              Some reranker \<Rightarrow>
                Inr (map (attach_analysis (analysis (rerankAndFilter found (reranker query found))))
                       (take topK (results (rerankAndFilter found (reranker query found)))))
            | None \<Rightarrow> Inr (take topK found)))"
    unfolding pipeline_search_def Let_def by (cases stype) simp_all
  from assms obtain found where f: "?stage1 = Inr found"
    unfolding unfold by (cases ?stage1) simp_all
  let ?reranker = "if enabled (llmRerankConfig p) \<and> length found > 0 then llmReranker p else None"
  from assms have eq: "(case ?reranker of
        Some reranker \<Rightarrow>
          Inr (map (attach_analysis (analysis (rerankAndFilter found (reranker query found))))
                 (take topK (results (rerankAndFilter found (reranker query found)))))
      | None \<Rightarrow> Inr (take topK found)) = (Inr rs :: js_error + SearchResultItem list)"
    unfolding unfold f sum.case .
  have "length rs \<le> topK \<and> (descending found \<longrightarrow> descending rs)
      \<and> (scores_in_unit found \<longrightarrow> scores_in_unit rs)"
  proof (cases ?reranker)
    case None
    with eq have "rs = take topK found" by simp
    then show ?thesis by (simp add: descending_take scores_in_unit_take)
  next
    case (Some reranker)
    let ?out = "rerankAndFilter found (reranker query found)"
    from eq have rs: "rs = map (attach_analysis (analysis ?out)) (take topK (results ?out))"
      unfolding Some by simp
    have l: "length rs \<le> topK" by (simp add: rs)
    have d: "descending rs" if "descending found"
      unfolding rs descending_attach
      by (rule descending_take, rule rerankAndFilter_ranked(1), rule that)
    have u: "scores_in_unit rs" if "scores_in_unit found"
      unfolding rs scores_in_unit_attach
      by (rule scores_in_unit_take, rule rerankAndFilter_ranked(2), rule that)
    from l d u show ?thesis by blast
  qed
  with f show ?thesis by blast
qed

lemma sort_by_score_stable:
  "filter (\<lambda>r. score r = x) (sort_by_score rs) = filter (\<lambda>r. score r = x) rs"
proof -
  have "filter (\<lambda>r. - score r = - x) (sort_key (\<lambda>r. - score r) rs)
      = filter (\<lambda>r. - score r = - x) rs"
    by (rule sort_key_stable)
  then show ?thesis by (simp add: sort_by_score_def)
qed

text \<open>
  The order of the keyword results: at most \<open>topK\<close> items, the best of the scored
  documents, in descending order of score, items of equal score in the order of the
  store.
\<close>

lemma keyword_search_order:
  assumes "keyword_search new_RegExp collection_find query topK = Inr rs"
  shows "\<exists>re found scored. new_RegExp (join ''|'' (tokenize query)) = Inr re
      \<and> collection_find (join ''|'' (tokenize query)) = Inr found
      \<and> scored = map (keyword_item re (tokenize query)) (cursor_limit (topK * 2) found)
      \<and> rs = take topK (sort_by_score scored)
      \<and> length rs \<le> topK \<and> descending (sort_by_score scored)
      \<and> (\<forall>x. filter (\<lambda>r. score r = x) (sort_by_score scored) = filter (\<lambda>r. score r = x) scored)"
  using keyword_search_shape [OF assms]
  by (auto simp: descending_sort_by_score sort_by_score_stable)

text \<open>
  C2, as stated, fails: the weights of the hybrid engine are taken as configured (a
  sum other than 1 is only logged). With both weights 1 and re-ranking disabled, a
  document with vector score 49/50 and keyword score 1/30 is returned with the
  score 76/75, which is greater than 1.
\<close>

theorem pipeline_hybrid_score_counterexample:
  "(case pipeline_search
           (new_RetrievalPipeline js_regex
              (\<lambda>source. Inr [resume ''Java developer'' ''Asha Rao'' ''asha@x.org'' ''Python'' ''Developer''])
              (\<lambda>query n. Inr [(stored ''Java developer'' ''Asha Rao'', 49 / 50)])
              \<lparr>vectorWeight = 1, keywordWeight = 1\<rparr> None None None)
           ''java'' SearchHybrid 1 of
      Inr rs \<Rightarrow> map (\<lambda>r. (name r, score r)) rs | Inl e \<Rightarrow> [])
   = [(''Asha Rao'', 76 / 75)]"
  by code_simp

text \<open>
  C2, amended. For every search through the retrieval pipeline that returns a list,
  with any search type, any re-rank setting and any \<open>k\<close>: the list has at most
  \<open>k\<close> items. It is in descending order of score for the keyword and the hybrid
  search, and for the vector search when the vector store returns its hits in
  descending order of similarity. Every score is in [0,1] for the keyword and the
  vector search, and for the hybrid search when the two weights are not negative,
  their sum is at most 1, and no two documents found by the keyword query have the
  same name (a document without a name has the name \<^verbatim>\<open>Unknown\<close>).
\<close>

theorem pipeline_search_ranked:
  assumes "pipeline_search
      (new_RetrievalPipeline new_RegExp collection_find searchWithScores hybridConfig chatModel
         cfg_enabled cfg_retrievalTopK) query stype topK = Inr rs"
  shows "length rs \<le> topK
    \<and> ((stype = SearchVector \<longrightarrow>
           (\<forall>n found. searchWithScores query n = Inr found \<longrightarrow>
              sorted_wrt (\<lambda>a b. snd a \<ge> snd b) found))
        \<longrightarrow> descending rs)
    \<and> ((stype = SearchHybrid \<longrightarrow>
           0 \<le> vectorWeight hybridConfig \<and> 0 \<le> keywordWeight hybridConfig
           \<and> vectorWeight hybridConfig + keywordWeight hybridConfig \<le> 1
           \<and> (\<forall>found. collection_find (join ''|'' (tokenize query)) = Inr found \<longrightarrow>
                 distinct (map (\<lambda>d. js_or (doc_name d) ''Unknown'') found)))
        \<longrightarrow> scores_in_unit rs)"
proof -
  let ?p = "new_RetrievalPipeline new_RegExp collection_find searchWithScores hybridConfig chatModel
         cfg_enabled cfg_retrievalTopK"
  have ke: "keywordEngine ?p = keyword_search new_RegExp collection_find"
    and ve: "vectorEngine ?p = vector_search searchWithScores"
    and he: "hybridEngine ?p = hybrid_search hybridConfig (vector_search searchWithScores)
                 (keyword_search new_RegExp collection_find)"
    by (simp_all add: new_RetrievalPipeline_def Let_def)
  from pipeline_search_shape [OF assms] obtain found n where
    f: "(case stype of
           SearchKeyword \<Rightarrow> keywordEngine ?p query
         | SearchVector \<Rightarrow> vectorEngine ?p query
         | SearchHybrid \<Rightarrow> hybridEngine ?p query) n = Inr found"
    and len: "length rs \<le> topK"
    and d: "descending found \<Longrightarrow> descending rs"
    and u: "scores_in_unit found \<Longrightarrow> scores_in_unit rs"
    by blast
  have desc: "descending rs"
    if "stype = SearchVector \<longrightarrow>
           (\<forall>n found. searchWithScores query n = Inr found \<longrightarrow>
              sorted_wrt (\<lambda>a b. snd a \<ge> snd b) found)"
  proof (rule d, cases stype)
    case SearchKeyword
    with f have "keyword_search new_RegExp collection_find query n = Inr found"
      by (simp add: ke)
    then show "descending found" by (rule keyword_search_ranked(1))
  next
    case SearchVector
    with f have "vector_search searchWithScores query n = Inr found"
      by (simp add: ve)
    moreover from that SearchVector
    have "\<forall>n found. searchWithScores query n = Inr found \<longrightarrow>
              sorted_wrt (\<lambda>a b. snd a \<ge> snd b) found" by blast
    ultimately show "descending found" by (rule vector_search_ranked(2))
  next
    case SearchHybrid
    with f have "hybrid_search hybridConfig (vector_search searchWithScores)
        (keyword_search new_RegExp collection_find) query n = Inr found"
      by (simp add: he)
    then show "descending found" by (rule hybrid_search_ranked(1))
  qed
  have unit: "scores_in_unit rs"
    if h: "stype = SearchHybrid \<longrightarrow>
           0 \<le> vectorWeight hybridConfig \<and> 0 \<le> keywordWeight hybridConfig
           \<and> vectorWeight hybridConfig + keywordWeight hybridConfig \<le> 1
           \<and> (\<forall>found. collection_find (join ''|'' (tokenize query)) = Inr found \<longrightarrow>
                 distinct (map (\<lambda>d. js_or (doc_name d) ''Unknown'') found))"
  proof (rule u, cases stype)
    case SearchKeyword
    with f have "keyword_search new_RegExp collection_find query n = Inr found"
      by (simp add: ke)
    then show "scores_in_unit found" by (rule keyword_search_ranked(2))
  next
    case SearchVector
    with f have "vector_search searchWithScores query n = Inr found"
      by (simp add: ve)
    then show "scores_in_unit found" by (rule vector_search_ranked(1))
  next
    case SearchHybrid
    with f have hs: "hybrid_search hybridConfig (vector_search searchWithScores)
        (keyword_search new_RegExp collection_find) query n = Inr found"
      by (simp add: he)
    from h SearchHybrid have w: "0 \<le> vectorWeight hybridConfig" "0 \<le> keywordWeight hybridConfig"
      "vectorWeight hybridConfig + keywordWeight hybridConfig \<le> 1"
      and dn: "\<forall>found. collection_find (join ''|'' (tokenize query)) = Inr found \<longrightarrow>
                 distinct (map (\<lambda>d. js_or (doc_name d) ''Unknown'') found)"
      by blast+
    show "scores_in_unit found"
    proof (rule hybrid_search_ranked(2) [OF hs _ _ w])
      fix m vs assume "vector_search searchWithScores query m = Inr vs"
      then show "scores_in_unit vs" by (rule vector_search_ranked(1))
    next
      fix m ks assume k: "keyword_search new_RegExp collection_find query m = Inr ks"
      from keyword_search_ranked(2) [OF k] keyword_search_distinct_names [OF k dn]
      show "scores_in_unit ks \<and> distinct (map name ks)" by blast
    qed
  qed
  from len desc unit show ?thesis by blast
qed

theorem pipeline_search_ranked_witness:
  "(case pipeline_search
           (new_RetrievalPipeline js_regex
              (\<lambda>source. Inr [resume ''Java developer'' ''Asha Rao'' ''asha@x.org'' ''Java'' ''Developer'',
                              resume ''Tester, some Java'' ''Ben Roy'' ''ben@x.org'' ''Selenium'' ''QA''])
              (\<lambda>query n. Inr [(stored ''Java developer'' ''Asha Rao'', 9 / 10),
                               (stored ''Architect'' ''Chitra Sen'', 7 / 10)])
              \<lparr>vectorWeight = 7 / 10, keywordWeight = 3 / 10\<rparr> None None None)
           ''java'' SearchHybrid 2 of
      Inr rs \<Rightarrow> map name rs = [''Asha Rao'', ''Chitra Sen''] \<and> length rs \<le> 2
                \<and> descending rs \<and> scores_in_unit rs
    | Inl e \<Rightarrow> False)
   \<and> (case pipeline_search
           (new_RetrievalPipeline js_regex
              (\<lambda>source. Inr [resume ''Java developer'' ''Asha Rao'' ''asha@x.org'' ''Java'' ''Developer'',
                              resume ''Tester, some Java'' ''Ben Roy'' ''ben@x.org'' ''Selenium'' ''QA''])
              (\<lambda>query n. Inr [(stored ''Java developer'' ''Asha Rao'', 9 / 10),
                               (stored ''Architect'' ''Chitra Sen'', 7 / 10)])
              \<lparr>vectorWeight = 7 / 10, keywordWeight = 3 / 10\<rparr> None None None)
           ''java'' SearchVector 1 of
      Inr rs \<Rightarrow> map name rs = [''Asha Rao''] \<and> length rs \<le> 1
                \<and> descending rs \<and> scores_in_unit rs
    | Inl e \<Rightarrow> False)"
proof -
  let ?find = "\<lambda>source :: string.
      (Inr [resume ''Java developer'' ''Asha Rao'' ''asha@x.org'' ''Java'' ''Developer'',
            resume ''Tester, some Java'' ''Ben Roy'' ''ben@x.org'' ''Selenium'' ''QA'']
         :: js_error + resume_doc list)"
  let ?store = "\<lambda>(query :: string) (n :: nat).
      (Inr [(stored ''Java developer'' ''Asha Rao'', 9 / 10), (stored ''Architect'' ''Chitra Sen'', 7 / 10)]
         :: js_error + (vector_doc \<times> real) list)"
  let ?cfg = "\<lparr>vectorWeight = 7 / 10, keywordWeight = 3 / 10\<rparr>"
  let ?p = "new_RetrievalPipeline js_regex ?find ?store ?cfg None None None"
  \<comment> \<open>a hybrid search\<close>
  let ?run = "pipeline_search ?p ''java'' SearchHybrid 2"
  have names: "(case ?run of Inr rs \<Rightarrow> map name rs | Inl e \<Rightarrow> []) = [''Asha Rao'', ''Chitra Sen'']"
    by code_simp
  then obtain rs where rs: "?run = Inr rs"
    by (cases ?run) simp_all
  have w: "SearchHybrid = SearchHybrid \<longrightarrow>
      0 \<le> vectorWeight ?cfg \<and> 0 \<le> keywordWeight ?cfg
      \<and> vectorWeight ?cfg + keywordWeight ?cfg \<le> 1
      \<and> (\<forall>found. ?find (join ''|'' (tokenize ''java'')) = Inr found \<longrightarrow>
            distinct (map (\<lambda>d. js_or (doc_name d) ''Unknown'') found))"
    by (auto simp: resume_def js_or_def)
  have s: "SearchHybrid = SearchVector \<longrightarrow>
      (\<forall>n found. ?store ''java'' n = Inr found \<longrightarrow> sorted_wrt (\<lambda>a b. snd a \<ge> snd b) found)"
    by simp
  from pipeline_search_ranked [OF rs] w s
  have "length rs \<le> 2" and "descending rs" and "scores_in_unit rs"
    by blast+
  moreover from names rs have "map name rs = [''Asha Rao'', ''Chitra Sen'']" by simp
  ultimately have hybrid: "(case ?run of
      Inr rs \<Rightarrow> map name rs = [''Asha Rao'', ''Chitra Sen''] \<and> length rs \<le> 2
                \<and> descending rs \<and> scores_in_unit rs
    | Inl e \<Rightarrow> False)"
    unfolding rs by simp
  \<comment> \<open>a vector search on a store that returns its hits in descending order\<close>
  let ?vrun = "pipeline_search ?p ''java'' SearchVector 1"
  have vnames: "(case ?vrun of Inr rs \<Rightarrow> map name rs | Inl e \<Rightarrow> []) = [''Asha Rao'']"
    by code_simp
  then obtain vs where vs: "?vrun = Inr vs"
    by (cases ?vrun) simp_all
  have vw: "SearchVector = SearchHybrid \<longrightarrow>
      0 \<le> vectorWeight ?cfg \<and> 0 \<le> keywordWeight ?cfg
      \<and> vectorWeight ?cfg + keywordWeight ?cfg \<le> 1
      \<and> (\<forall>found. ?find (join ''|'' (tokenize ''java'')) = Inr found \<longrightarrow>
            distinct (map (\<lambda>d. js_or (doc_name d) ''Unknown'') found))"
    by simp
  have vsorted: "SearchVector = SearchVector \<longrightarrow>
      (\<forall>n found. ?store ''java'' n = Inr found \<longrightarrow> sorted_wrt (\<lambda>a b. snd a \<ge> snd b) found)"
    by auto
  from pipeline_search_ranked [OF vs] vw vsorted
  have "length vs \<le> 1" and "descending vs" and "scores_in_unit vs"
    by blast+
  moreover from vnames vs have "map name vs = [''Asha Rao'']" by simp
  ultimately have vector: "(case ?vrun of
      Inr rs \<Rightarrow> map name rs = [''Asha Rao''] \<and> length rs \<le> 1
                \<and> descending rs \<and> scores_in_unit rs
    | Inl e \<Rightarrow> False)"
    unfolding vs by simp
  from hybrid vector show ?thesis by blast
qed

section \<open>Properties of the chat endpoint\<close>

lemma lastSearchResults_addExchange:
  "lastSearchResults (addExchange u a m) = lastSearchResults m"
  by (simp add: addExchange_def trimMessages_def saveContext_def getMessages_def Let_def)

lemma cache_of_update:
  "cache_of (conversations(cid \<mapsto> m)) c =
     (if c = cid then lastSearchResults m else cache_of conversations c)"
  by (simp add: cache_of_def)

lemma getOrCreate_cache:
  assumes "getOrCreate conversations cid = (mm, conversations')"
  shows "cache_of conversations' c = cache_of conversations c"
    and "lastSearchResults mm = cache_of conversations cid"
    and "conversations' cid = Some mm"
  using assms
  by (auto simp: getOrCreate_def cache_of_def new_ChatMemoryManager_def Let_def
      split: option.splits if_splits)

text \<open>The two branches of the handler, for a request that passes the checks.\<close>

lemma chat_endpoint_filter_branch:
  assumes "length (message parsed) \<ge> 1" and "retrievalPipeline env = Some pipeline"
    and "createChatModel env = None"
    and "getOrCreate conversations (js_or (req_conversationId parsed) (generated_id env))
           = (mm, conversations')"
    and "hasSearchResults mm \<and>
           (isFilterQuery (message parsed) \<or> js_or (req_conversationId parsed) [] \<noteq> [])"
  shows "chat_endpoint env conversations parsed =
     (let cid = js_or (req_conversationId parsed) (generated_id env);
          out = filterResults (lastSearchResults mm)
                  (filter_invoke env (message parsed) (lastSearchResults mm));
          mm' = addExchange (message parsed) (snd out) mm
      in (Inr \<lparr>response = snd out, res_conversationId = cid,
               messageCount = getMessageCount mm', searchResults = fst out,
               searchType = ''filter'', resultCount = length (fst out)\<rparr>,
          conversations'(cid \<mapsto> mm')))"
  using assms
  by (simp add: chat_endpoint_def Let_def getLastSearchResults_def split_beta Suc_le_eq)

lemma chat_endpoint_pipeline_branch:
  assumes "length (message parsed) \<ge> 1" and "retrievalPipeline env = Some pipeline"
    and "createChatModel env = None"
    and "getOrCreate conversations (js_or (req_conversationId parsed) (generated_id env))
           = (mm, conversations')"
    and "\<not> (hasSearchResults mm \<and>
           (isFilterQuery (message parsed) \<or> js_or (req_conversationId parsed) [] \<noteq> []))"
  shows "chat_endpoint env conversations parsed =
     (let cid = js_or (req_conversationId parsed) (generated_id env) in
      case pipeline (message parsed) 10 of
        Inl e \<Rightarrow> (Inl e, conversations')
      | Inr found \<Rightarrow>
          (case chain_invoke env (message parsed) (chat_history mm) found of
             Inl e \<Rightarrow> (Inl e, conversations')
           | Inr answer \<Rightarrow>
               (let mm' = setLastSearchResults (map structured found)
                            (addExchange (message parsed) answer mm)
                in (Inr \<lparr>response = answer, res_conversationId = cid,
                         messageCount = getMessageCount mm',
                         searchResults = map structured found,
                         searchType = ''hybrid'', resultCount = length found\<rparr>,
                    conversations'(cid \<mapsto> mm')))))"
  using assms
  by (auto simp: chat_endpoint_def rag_chat_def Let_def Suc_le_eq split: sum.splits)

lemma supplied_conversationId:
  "js_or (req_conversationId parsed) [] \<noteq> [] \<longleftrightarrow>
     (\<exists>c. req_conversationId parsed = Some c \<and> c \<noteq> [])"
  by (simp add: js_or_def split: option.splits)

text \<open>What the routing tests compute: a cache that is not empty, and a keyword of the
  fixed list that occurs in the lower-cased message.\<close>

lemma hasSearchResults_iff: "hasSearchResults mm \<longleftrightarrow> lastSearchResults mm \<noteq> []"
  by (simp add: hasSearchResults_def)

lemma starts_with_iff: "starts_with s k \<longleftrightarrow> (\<exists>post. s = k @ post)"
proof
  assume "starts_with s k"
  then have "s = k @ drop (length k) s"
    by (metis append_take_drop_id starts_with_def)
  then show "\<exists>post. s = k @ post" ..
next
  assume "\<exists>post. s = k @ post"
  then show "starts_with s k" by (auto simp: starts_with_def)
qed

lemma index_from_None_iff:
  "index_from i s k = None \<longleftrightarrow> \<not> (\<exists>pre post. s = pre @ k @ post)"
proof (induction s arbitrary: i)
  case Nil
  show ?case by auto
next
  case (Cons c cs)
  show ?case
  proof (cases "starts_with (c # cs) k")
    case True
    then obtain post where "c # cs = [] @ k @ post"
      by (auto simp: starts_with_iff)
    then have "\<exists>pre post. c # cs = pre @ k @ post" by blast
    with True show ?thesis by simp
  next
    case False
    have "(\<exists>pre post. c # cs = pre @ k @ post) \<longleftrightarrow> (\<exists>pre post. cs = pre @ k @ post)"
    proof
      assume "\<exists>pre post. c # cs = pre @ k @ post"
      then obtain pre post where e: "c # cs = pre @ k @ post" by blast
      show "\<exists>pre post. cs = pre @ k @ post"
      proof (cases pre)
        case Nil
        with e have "starts_with (c # cs) k" by (auto simp: starts_with_iff)
        with False show ?thesis by simp
      next
        case (Cons d pre')
        with e have "cs = pre' @ k @ post" by simp
        then show ?thesis by blast
      qed
    next
      assume "\<exists>pre post. cs = pre @ k @ post"
      then obtain pre post where "cs = pre @ k @ post" by blast
      then have "c # cs = (c # pre) @ k @ post" by simp
      then show "\<exists>pre post. c # cs = pre @ k @ post" by blast
    qed
    with False Cons.IH [of "Suc i"] show ?thesis by simp
  qed
qed

lemma js_includes_iff: "js_includes s k \<longleftrightarrow> (\<exists>pre post. s = pre @ k @ post)"
  by (simp add: js_includes_def indexOf_def index_from_None_iff)

lemma isFilterQuery_iff:
  "isFilterQuery query \<longleftrightarrow>
     (\<exists>keyword\<in>set [''only'', ''filter'', ''show me'', ''display'', ''from those'',
        ''from the above'', ''from previous'', ''from these'', ''among them'', ''out of these'',
        ''narrow down'', ''refine''].
        \<exists>pre post. map to_lower query = pre @ keyword @ post)"
  unfolding isFilterQuery_def Let_def list_ex_iff filterKeywords_def js_includes_iff toLowerCase_def
  by (rule refl)

text \<open>The cache of every conversation after one request.\<close>

lemma chat_endpoint_cache:
  assumes "chat_endpoint env conversations parsed = (r, conversations')"
  shows "cache_of conversations' c =
     (case r of
        Inl e \<Rightarrow> cache_of conversations c
      | Inr q \<Rightarrow> if res_conversationId q = c \<and> searchType q = ''hybrid''
                 then searchResults q else cache_of conversations c)"
proof (cases "message parsed = []")
  case True
  with assms show ?thesis by (auto simp: chat_endpoint_def)
next
  case False
  then have long: "length (message parsed) \<ge> 1" by (simp add: Suc_le_eq)
  show ?thesis
  proof (cases "retrievalPipeline env")
    case None
    with assms False show ?thesis by (auto simp: chat_endpoint_def)
  next
    case (Some pipeline)
    let ?cid = "js_or (req_conversationId parsed) (generated_id env)"
    obtain mm conversations1 where g: "getOrCreate conversations ?cid = (mm, conversations1)"
      by (cases "getOrCreate conversations ?cid")
    note gc = getOrCreate_cache [OF g]
    show ?thesis
    proof (cases "createChatModel env")
      case model: None
      show ?thesis
      proof (cases "hasSearchResults mm \<and>
             (isFilterQuery (message parsed) \<or> js_or (req_conversationId parsed) [] \<noteq> [])")
        case filter: True
        from assms gc(1) [of c] gc(2) show ?thesis
          unfolding chat_endpoint_filter_branch [OF long Some model g filter]
          by (auto simp: Let_def cache_of_update lastSearchResults_addExchange)
      next
        case search: False
        from assms gc(1) [of c] gc(2) show ?thesis
          unfolding chat_endpoint_pipeline_branch [OF long Some model g search]
          by (auto simp: Let_def cache_of_update lastSearchResults_addExchange
              setLastSearchResults_def split: sum.splits)
      qed
    next
      case (Some e)
      with assms False \<open>retrievalPipeline env = Some pipeline\<close> g gc(1) [of c] show ?thesis
        by (auto simp: chat_endpoint_def Let_def)
    qed
  qed
qed

lemma chat_run_cache:
  "chat_run conversations reqs = (rs, conversations') \<Longrightarrow>
   cache_of conversations' c =
     (case last_retrieval c rs of Some found \<Rightarrow> found | None \<Rightarrow> cache_of conversations c)"
proof (induction reqs arbitrary: conversations rs)
  case Nil
  then show ?case by simp
next
  case (Cons req reqs)
  obtain env parsed where req: "req = (env, parsed)" by (cases req)
  obtain r conversations1 where step: "chat_endpoint env conversations parsed = (r, conversations1)"
    by (cases "chat_endpoint env conversations parsed")
  obtain rs' conversations2 where run: "chat_run conversations1 reqs = (rs', conversations2)"
    by (cases "chat_run conversations1 reqs")
  from Cons.prems req step run have rs: "rs = r # rs'" and c2: "conversations' = conversations2"
    by simp_all
  from run c2 have run': "chat_run conversations1 reqs = (rs', conversations')" by simp
  from Cons.IH [OF run'] have "cache_of conversations' c =
      (case last_retrieval c rs' of Some found \<Rightarrow> found | None \<Rightarrow> cache_of conversations1 c)" .
  with chat_endpoint_cache [OF step, of c] show ?case
    unfolding rs by (auto split: option.splits sum.splits)
qed

text \<open>
  C5, as stated, fails: the results of the pipeline replace the cache only after the
  chat model of the chain has answered. Here the pipeline finds the candidate B for
  the first message of a conversation, the chat model throws, the request fails and
  the cache of the conversation is empty.
\<close>

theorem chat_chain_failure_counterexample:
  "(case retrievalPipeline example_env of
      Some pipeline \<Rightarrow> pipeline ''Find QA engineers'' 10 | None \<Rightarrow> Inr [])
     = Inr [item ''B'' (9 / 10) LlmReranked ''b'']
   \<and> fst (chat_endpoint
        (example_env\<lparr>chain_invoke := \<lambda>input history found. Inl (Error ''model unavailable'')\<rparr>)
        Map.empty \<lparr>message = ''Find QA engineers'', req_conversationId = None\<rparr>)
     = Inl (Error ''model unavailable'')
   \<and> cache_of (snd (chat_endpoint
        (example_env\<lparr>chain_invoke := \<lambda>input history found. Inl (Error ''model unavailable'')\<rparr>)
        Map.empty \<lparr>message = ''Find QA engineers'', req_conversationId = None\<rparr>)) ''conv_1''
     = []"
  by (simp add: example_env_def chat_endpoint_def rag_chat_def getOrCreate_def Let_def
      js_or_def hasSearchResults_def new_ChatMemoryManager_def cache_of_def)

text \<open>
  C5, amended. For a request that reaches the routing of the handler (a message
  that is not empty, an initialised pipeline, a chat model that could be built), on
  the memory of its conversation (the one of the given identifier, or of the
  generated one): when the cached results are not empty and the lower-cased message
  contains one of the twelve filter keywords or the client supplied an identifier
  that is not empty, the answer is that of the conversational filter on the cached
  results, of search type \<open>filter\<close>, and the cache stays as it was. Otherwise the
  pipeline is asked for a hybrid search; when it and the chat model of the chain
  both answer, the answer has the search type \<open>hybrid\<close> and the structured results
  of the pipeline, and these replace the cache; when one of them fails, the request
  fails and the cache stays as it was. After every request (also one that fails
  before the routing) the cache of every conversation is what it was, except for the
  conversation of an answer of search type \<open>hybrid\<close>, whose cache is the results
  of that answer; so after any sequence of requests the cache of a conversation
  holds the results of its most recent answer of search type \<open>hybrid\<close>, and its
  initial cache when there is none.
\<close>

theorem chat_endpoint_routing:
  assumes "length (message parsed) \<ge> 1" and "retrievalPipeline env = Some pipeline"
    and "createChatModel env = None"
    and "cid = js_or (req_conversationId parsed) (generated_id env)"
    and "getOrCreate conversations cid = (mm, conversations1)"
  shows "(lastSearchResults mm \<noteq> [] \<and>
            ((\<exists>keyword\<in>set [''only'', ''filter'', ''show me'', ''display'', ''from those'',
                 ''from the above'', ''from previous'', ''from these'', ''among them'',
                 ''out of these'', ''narrow down'', ''refine''].
                 \<exists>pre post. map to_lower (message parsed) = pre @ keyword @ post)
             \<or> (\<exists>c. req_conversationId parsed = Some c \<and> c \<noteq> []))
          \<longrightarrow>
            (\<exists>q. fst (chat_endpoint env conversations parsed) = Inr q
                 \<and> searchType q = ''filter'' \<and> res_conversationId q = cid
                 \<and> (searchResults q, response q) =
                     filterResults (lastSearchResults mm)
                       (filter_invoke env (message parsed) (lastSearchResults mm)))
            \<and> cache_of (snd (chat_endpoint env conversations parsed)) cid = lastSearchResults mm)
    \<and> (\<not> (lastSearchResults mm \<noteq> [] \<and>
            ((\<exists>keyword\<in>set [''only'', ''filter'', ''show me'', ''display'', ''from those'',
                 ''from the above'', ''from previous'', ''from these'', ''among them'',
                 ''out of these'', ''narrow down'', ''refine''].
                 \<exists>pre post. map to_lower (message parsed) = pre @ keyword @ post)
             \<or> (\<exists>c. req_conversationId parsed = Some c \<and> c \<noteq> [])))
          \<longrightarrow>
            (case pipeline (message parsed) 10 of
               Inl e \<Rightarrow> fst (chat_endpoint env conversations parsed) = Inl e
                        \<and> cache_of (snd (chat_endpoint env conversations parsed)) cid
                            = lastSearchResults mm
             | Inr found \<Rightarrow>
                 (case chain_invoke env (message parsed) (chat_history mm) found of
                    Inl e \<Rightarrow> fst (chat_endpoint env conversations parsed) = Inl e
                             \<and> cache_of (snd (chat_endpoint env conversations parsed)) cid
                                 = lastSearchResults mm
                  | Inr answer \<Rightarrow>
                      (\<exists>q. fst (chat_endpoint env conversations parsed) = Inr q
                           \<and> searchType q = ''hybrid'' \<and> res_conversationId q = cid
                           \<and> searchResults q = map structured found \<and> response q = answer)
                      \<and> cache_of (snd (chat_endpoint env conversations parsed)) cid
                          = map structured found)))
    \<and> (\<forall>env' parsed' r conversations' c.
          chat_endpoint env' conversations parsed' = (r, conversations') \<longrightarrow>
          cache_of conversations' c =
            (case r of
               Inl e \<Rightarrow> cache_of conversations c
             | Inr q \<Rightarrow> if res_conversationId q = c \<and> searchType q = ''hybrid''
                        then searchResults q else cache_of conversations c))
    \<and> (\<forall>reqs rs conversations' c.
          chat_run conversations reqs = (rs, conversations') \<longrightarrow>
          cache_of conversations' c =
            (case last_retrieval c rs of Some found \<Rightarrow> found | None \<Rightarrow> cache_of conversations c))"
proof -
  let ?cond = "hasSearchResults mm \<and>
      (isFilterQuery (message parsed) \<or> js_or (req_conversationId parsed) [] \<noteq> [])"
  note g = assms(5) [unfolded assms(4)]
  note gc = getOrCreate_cache [OF g]
  have a: "(\<exists>q. fst (chat_endpoint env conversations parsed) = Inr q
                 \<and> searchType q = ''filter'' \<and> res_conversationId q = cid
                 \<and> (searchResults q, response q) =
                     filterResults (lastSearchResults mm)
                       (filter_invoke env (message parsed) (lastSearchResults mm)))
            \<and> cache_of (snd (chat_endpoint env conversations parsed)) cid = lastSearchResults mm"
    if "?cond"
    unfolding chat_endpoint_filter_branch [OF assms(1,2,3) g that]
    by (simp add: Let_def assms(4) cache_of_update lastSearchResults_addExchange)
  have b: "(case pipeline (message parsed) 10 of
               Inl e \<Rightarrow> fst (chat_endpoint env conversations parsed) = Inl e
                        \<and> cache_of (snd (chat_endpoint env conversations parsed)) cid
                            = lastSearchResults mm
             | Inr found \<Rightarrow>
                 (case chain_invoke env (message parsed) (chat_history mm) found of
                    Inl e \<Rightarrow> fst (chat_endpoint env conversations parsed) = Inl e
                             \<and> cache_of (snd (chat_endpoint env conversations parsed)) cid
                                 = lastSearchResults mm
                  | Inr answer \<Rightarrow>
                      (\<exists>q. fst (chat_endpoint env conversations parsed) = Inr q
                           \<and> searchType q = ''hybrid'' \<and> res_conversationId q = cid
                           \<and> searchResults q = map structured found \<and> response q = answer)
                      \<and> cache_of (snd (chat_endpoint env conversations parsed)) cid
                          = map structured found))"
    if "\<not> ?cond"
    unfolding chat_endpoint_pipeline_branch [OF assms(1,2,3) g that]
    by (simp add: Let_def assms(4) cache_of_update lastSearchResults_addExchange gc
        setLastSearchResults_def split: sum.splits)
  have c: "\<forall>env' parsed' r conversations' c.
          chat_endpoint env' conversations parsed' = (r, conversations') \<longrightarrow>
          cache_of conversations' c =
            (case r of
               Inl e \<Rightarrow> cache_of conversations c
             | Inr q \<Rightarrow> if res_conversationId q = c \<and> searchType q = ''hybrid''
                        then searchResults q else cache_of conversations c)"
    using chat_endpoint_cache by blast
  have d: "\<forall>reqs rs conversations' c.
          chat_run conversations reqs = (rs, conversations') \<longrightarrow>
          cache_of conversations' c =
            (case last_retrieval c rs of Some found \<Rightarrow> found | None \<Rightarrow> cache_of conversations c)"
    using chat_run_cache by blast
  have cond: "?cond \<longleftrightarrow>
      lastSearchResults mm \<noteq> [] \<and>
        ((\<exists>keyword\<in>set [''only'', ''filter'', ''show me'', ''display'', ''from those'',
             ''from the above'', ''from previous'', ''from these'', ''among them'',
             ''out of these'', ''narrow down'', ''refine''].
             \<exists>pre post. map to_lower (message parsed) = pre @ keyword @ post)
         \<or> (\<exists>c. req_conversationId parsed = Some c \<and> c \<noteq> []))"
    by (simp only: hasSearchResults_iff isFilterQuery_iff supplied_conversationId)
  from a b c d show ?thesis
    unfolding cond [symmetric] by blast
qed

theorem chat_endpoint_routing_witness:
  "(case fst (chat_endpoint example_env example_store
        \<lparr>message = ''only those in Bengaluru'', req_conversationId = None\<rparr>) of
      Inr q \<Rightarrow> searchType q = ''filter'' \<and> response q = ''1 of 1''
               \<and> searchResults q = [structured (item ''A'' (8 / 10) LlmReranked ''a'')]
    | Inl e \<Rightarrow> False)
   \<and> cache_of (snd (chat_endpoint example_env example_store
        \<lparr>message = ''only those in Bengaluru'', req_conversationId = None\<rparr>)) ''conv_1''
     = [structured (item ''A'' (8 / 10) LlmReranked ''a'')]
   \<and> (case fst (chat_endpoint example_env example_store
        \<lparr>message = ''Find QA engineers'', req_conversationId = None\<rparr>) of
      Inr q \<Rightarrow> searchType q = ''hybrid'' \<and> res_conversationId q = ''conv_1''
               \<and> searchResults q = [structured (item ''B'' (9 / 10) LlmReranked ''b'')]
    | Inl e \<Rightarrow> False)
   \<and> cache_of (snd (chat_endpoint example_env example_store
        \<lparr>message = ''Find QA engineers'', req_conversationId = None\<rparr>)) ''conv_1''
     = [structured (item ''B'' (9 / 10) LlmReranked ''b'')]
   \<and> (case fst (chat_endpoint example_env example_store
        \<lparr>message = ''Find QA engineers'', req_conversationId = Some ''conv_1''\<rparr>) of
      Inr q \<Rightarrow> searchType q = ''filter''
               \<and> searchResults q = [structured (item ''A'' (8 / 10) LlmReranked ''a'')]
    | Inl e \<Rightarrow> False)
   \<and> cache_of (snd (chat_endpoint
        (example_env\<lparr>createChatModel := Some (Error ''GROQ_API_KEY is required when MODEL_PROVIDER=groq'')\<rparr>)
        example_store \<lparr>message = ''Find QA engineers'', req_conversationId = None\<rparr>)) ''conv_1''
     = [structured (item ''A'' (8 / 10) LlmReranked ''a'')]
   \<and> cache_of (snd (chat_run example_store
        [(example_env, \<lparr>message = ''Find QA engineers'', req_conversationId = None\<rparr>),
         (example_env, \<lparr>message = ''only those in Bengaluru'', req_conversationId = Some ''conv_1''\<rparr>)]))
        ''conv_1''
     = [structured (item ''B'' (9 / 10) LlmReranked ''b'')]"
proof -
  let ?pipeline = "\<lambda>(query :: string) (k :: nat).
      (Inr [item ''B'' (9 / 10) LlmReranked ''b''] :: js_error + SearchResultItem list)"
  let ?A = "structured (item ''A'' (8 / 10) LlmReranked ''a'')"
  let ?B = "structured (item ''B'' (9 / 10) LlmReranked ''b'')"
  let ?mm = "setLastSearchResults [?A] (new_ChatMemoryManager ''conv_1'' None)"
  have h2: "retrievalPipeline example_env = Some ?pipeline" by (simp add: example_env_def)
  have h3: "createChatModel example_env = None" by (simp add: example_env_def)
  have g: "getOrCreate example_store ''conv_1'' = (?mm, example_store)"
    by (simp add: getOrCreate_def example_store_def)
  have cached: "lastSearchResults ?mm = [?A]" by (simp add: setLastSearchResults_def)
  have filt: "filterResults [?A] (filter_invoke example_env msg [?A]) = ([?A], ''1 of 1'')" for msg
    by (simp add: filterResults_def filter_decision_def decision_def structured_def item_def
        example_env_def)
  have chain: "chain_invoke example_env i h f = Inr ''one candidate''" for i h f
    by (simp add: example_env_def)
  \<comment> \<open>no identifier, the generated one is that of the stored conversation, a filter keyword\<close>
  let ?r1 = "\<lparr>message = ''only those in Bengaluru'', req_conversationId = None\<rparr>"
  have m1: "message ?r1 = ''only those in Bengaluru''" by simp
  have l1: "length (message ?r1) \<ge> 1" by simp
  have c1: "''conv_1'' = js_or (req_conversationId ?r1) (generated_id example_env)"
    by (simp add: js_or_def example_env_def)
  have tok: "isFilterQuery ''only those in Bengaluru''" by code_simp
  have k1: "\<exists>keyword\<in>set [''only'', ''filter'', ''show me'', ''display'', ''from those'',
                 ''from the above'', ''from previous'', ''from these'', ''among them'',
                 ''out of these'', ''narrow down'', ''refine''].
                 \<exists>pre post. map to_lower (message ?r1) = pre @ keyword @ post"
    unfolding m1 using tok [unfolded isFilterQuery_iff] .
  note t1 = chat_endpoint_routing [OF l1 h2 h3 c1 g]
  from cached have ne: "lastSearchResults ?mm \<noteq> []" by simp
  from t1 ne k1
  obtain q1 where q1: "fst (chat_endpoint example_env example_store ?r1) = Inr q1"
      "searchType q1 = ''filter''"
      "(searchResults q1, response q1) =
         filterResults (lastSearchResults ?mm)
           (filter_invoke example_env (message ?r1) (lastSearchResults ?mm))"
    and cache1: "cache_of (snd (chat_endpoint example_env example_store ?r1)) ''conv_1''
        = lastSearchResults ?mm"
    by blast
  from q1(3) have "searchResults q1 = [?A]" and "response q1 = ''1 of 1''"
    unfolding cached filt by simp_all
  with q1(1,2) cache1 cached have part1:
    "(case fst (chat_endpoint example_env example_store ?r1) of
        Inr q \<Rightarrow> searchType q = ''filter'' \<and> response q = ''1 of 1'' \<and> searchResults q = [?A]
      | Inl e \<Rightarrow> False)
     \<and> cache_of (snd (chat_endpoint example_env example_store ?r1)) ''conv_1'' = [?A]"
    by simp
  \<comment> \<open>no identifier, the same conversation, no filter keyword\<close>
  let ?r2 = "\<lparr>message = ''Find QA engineers'', req_conversationId = None\<rparr>"
  have m2: "message ?r2 = ''Find QA engineers''" by simp
  have l2: "length (message ?r2) \<ge> 1" by simp
  have c2: "''conv_1'' = js_or (req_conversationId ?r2) (generated_id example_env)"
    by (simp add: js_or_def example_env_def)
  have ntok: "\<not> isFilterQuery ''Find QA engineers''" by code_simp
  have k2: "\<not> (\<exists>keyword\<in>set [''only'', ''filter'', ''show me'', ''display'', ''from those'',
                 ''from the above'', ''from previous'', ''from these'', ''among them'',
                 ''out of these'', ''narrow down'', ''refine''].
                 \<exists>pre post. map to_lower (message ?r2) = pre @ keyword @ post)"
    unfolding m2 using ntok [unfolded isFilterQuery_iff] .
  have s2: "\<not> (\<exists>c. req_conversationId ?r2 = Some c \<and> c \<noteq> [])" by simp
  note t2 = chat_endpoint_routing [OF l2 h2 h3 c2 g]
  from t2 k2 s2
  have "(case ?pipeline (message ?r2) 10 of
           Inl e \<Rightarrow> fst (chat_endpoint example_env example_store ?r2) = Inl e
                    \<and> cache_of (snd (chat_endpoint example_env example_store ?r2)) ''conv_1''
                        = lastSearchResults ?mm
         | Inr found \<Rightarrow>
             (case chain_invoke example_env (message ?r2) (chat_history ?mm) found of
                Inl e \<Rightarrow> fst (chat_endpoint example_env example_store ?r2) = Inl e
                         \<and> cache_of (snd (chat_endpoint example_env example_store ?r2)) ''conv_1''
                             = lastSearchResults ?mm
              | Inr answer \<Rightarrow>
                  (\<exists>q. fst (chat_endpoint example_env example_store ?r2) = Inr q
                       \<and> searchType q = ''hybrid'' \<and> res_conversationId q = ''conv_1''
                       \<and> searchResults q = map structured found \<and> response q = answer)
                  \<and> cache_of (snd (chat_endpoint example_env example_store ?r2)) ''conv_1''
                      = map structured found))"
    by blast
  then have "(\<exists>q. fst (chat_endpoint example_env example_store ?r2) = Inr q
                 \<and> searchType q = ''hybrid'' \<and> res_conversationId q = ''conv_1''
                 \<and> searchResults q = [?B] \<and> response q = ''one candidate'')
      \<and> cache_of (snd (chat_endpoint example_env example_store ?r2)) ''conv_1'' = [?B]"
    by (simp add: chain)
  then have part2:
    "(case fst (chat_endpoint example_env example_store ?r2) of
        Inr q \<Rightarrow> searchType q = ''hybrid'' \<and> res_conversationId q = ''conv_1''
                 \<and> searchResults q = [?B]
      | Inl e \<Rightarrow> False)
     \<and> cache_of (snd (chat_endpoint example_env example_store ?r2)) ''conv_1'' = [?B]"
    by auto
  \<comment> \<open>the identifier supplied, no filter keyword\<close>
  let ?r3 = "\<lparr>message = ''Find QA engineers'', req_conversationId = Some ''conv_1''\<rparr>"
  have l3: "length (message ?r3) \<ge> 1" by simp
  have c3: "''conv_1'' = js_or (req_conversationId ?r3) (generated_id example_env)"
    by (simp add: js_or_def)
  have s3: "\<exists>c. req_conversationId ?r3 = Some c \<and> c \<noteq> []" by simp
  from chat_endpoint_routing [OF l3 h2 h3 c3 g] ne s3
  obtain q3 where q3: "fst (chat_endpoint example_env example_store ?r3) = Inr q3"
      "searchType q3 = ''filter''"
      "(searchResults q3, response q3) =
         filterResults (lastSearchResults ?mm)
           (filter_invoke example_env (message ?r3) (lastSearchResults ?mm))"
    by blast
  from q3(3) have "searchResults q3 = [?A]"
    unfolding cached filt by simp
  with q3(1,2) have part3:
    "(case fst (chat_endpoint example_env example_store ?r3) of
        Inr q \<Rightarrow> searchType q = ''filter'' \<and> searchResults q = [?A]
      | Inl e \<Rightarrow> False)"
    by simp
  \<comment> \<open>a request that fails before the routing\<close>
  let ?bad = "example_env\<lparr>createChatModel :=
      Some (Error ''GROQ_API_KEY is required when MODEL_PROVIDER=groq'')\<rparr>"
  from t1 have step: "\<forall>env' parsed' r conversations' c.
      chat_endpoint env' example_store parsed' = (r, conversations') \<longrightarrow>
      cache_of conversations' c =
        (case r of
           Inl e \<Rightarrow> cache_of example_store c
         | Inr q \<Rightarrow> if res_conversationId q = c \<and> searchType q = ''hybrid''
                    then searchResults q else cache_of example_store c)"
    by (elim conjE)
  have "chat_endpoint ?bad example_store ?r2 =
      (fst (chat_endpoint ?bad example_store ?r2), snd (chat_endpoint ?bad example_store ?r2))"
    by (rule prod.collapse [symmetric])
  with step have "cache_of (snd (chat_endpoint ?bad example_store ?r2)) ''conv_1'' =
      (case fst (chat_endpoint ?bad example_store ?r2) of
         Inl e \<Rightarrow> cache_of example_store ''conv_1''
       | Inr q \<Rightarrow> if res_conversationId q = ''conv_1'' \<and> searchType q = ''hybrid''
                  then searchResults q else cache_of example_store ''conv_1'')"
    by (elim allE impE)
  moreover have "fst (chat_endpoint ?bad example_store ?r2)
      = Inl (Error ''GROQ_API_KEY is required when MODEL_PROVIDER=groq'')"
    by (simp add: chat_endpoint_def example_env_def Let_def split_beta)
  moreover have "cache_of example_store ''conv_1'' = [?A]"
    by (simp add: cache_of_def example_store_def setLastSearchResults_def)
  ultimately have part4: "cache_of (snd (chat_endpoint ?bad example_store ?r2)) ''conv_1'' = [?A]"
    by simp
  \<comment> \<open>a search and a follow-up, one after the other\<close>
  let ?reqs = "[(example_env, ?r2),
      (example_env, \<lparr>message = ''only those in Bengaluru'', req_conversationId = Some ''conv_1''\<rparr>)]"
  have last: "last_retrieval ''conv_1'' (fst (chat_run example_store ?reqs)) = Some [?B]"
    by code_simp
  from t1 have run: "\<forall>reqs rs conversations' c.
      chat_run example_store reqs = (rs, conversations') \<longrightarrow>
      cache_of conversations' c =
        (case last_retrieval c rs of Some found \<Rightarrow> found | None \<Rightarrow> cache_of example_store c)"
    by (elim conjE)
  have "chat_run example_store ?reqs
      = (fst (chat_run example_store ?reqs), snd (chat_run example_store ?reqs))"
    by (rule prod.collapse [symmetric])
  with run have "cache_of (snd (chat_run example_store ?reqs)) ''conv_1'' =
      (case last_retrieval ''conv_1'' (fst (chat_run example_store ?reqs)) of
         Some found \<Rightarrow> found | None \<Rightarrow> cache_of example_store ''conv_1'')"
    by (elim allE impE)
  with last have part5: "cache_of (snd (chat_run example_store ?reqs)) ''conv_1'' = [?B]"
    by simp
  from part1 part2 part3 part4 part5 show ?thesis by blast
qed

end
